theory Spec2Isabelle
  imports Main
begin

section \<open>JavaScript values and the array store\<close>

text \<open>
  The parameters of a statement are JavaScript values. Arrays are objects with an identity:
  a value of the form \<open>JArr a\<close> is a reference to the array stored at address \<open>a\<close>, so that
  two parameters may be the same array and an in-place \<open>splice\<close> is visible to every holder
  of the reference. Numbers that occur as parameters are only passed through to the driver
  and are modelled as integers.
\<close>

type_synonym addr = nat

datatype jsval = JUndefined | JNull | JBool bool | JNum int | JStr string | JArr addr

type_synonym heap = "addr \<Rightarrow> jsval list"

text \<open>\<open>Array.isArray(v)\<close>\<close>

fun isArray :: "jsval \<Rightarrow> bool" where
  "isArray (JArr a) = True"
| "isArray v = False"

text \<open>\<open>typeof v == 'string'\<close>\<close>

fun isString :: "jsval \<Rightarrow> bool" where
  "isString (JStr s) = True"
| "isString v = False"

text \<open>The truth value of \<open>v\<close> in a condition.\<close>

fun truthy :: "jsval \<Rightarrow> bool" where
  "truthy JUndefined = False"
| "truthy JNull = False"
| "truthy (JBool b) = b"
| "truthy (JNum n) = (n \<noteq> 0)"
| "truthy (JStr s) = (s \<noteq> [])"
| "truthy (JArr a) = True"

text \<open>
  One argument of \<open>Array.prototype.concat\<close>: an array argument contributes its elements
  (one level), any other value contributes itself.
\<close>

fun spread :: "heap \<Rightarrow> jsval \<Rightarrow> jsval list" where
  "spread hp (JArr a) = hp a"
| "spread hp v = [v]"

text \<open>\<open>left.concat(...items, right)\<close> where \<open>left\<close> and \<open>right\<close> are arrays.\<close>

definition concat_js :: "heap \<Rightarrow> jsval list \<Rightarrow> jsval list \<Rightarrow> jsval list \<Rightarrow> jsval list" where
  "concat_js hp left items right = left @ concat (map (spread hp) items) @ right"

text \<open>\<open>xs.findIndex(p)\<close>; \<open>None\<close> stands for \<open>-1\<close>.\<close>

fun findIndex :: "('a \<Rightarrow> bool) \<Rightarrow> 'a list \<Rightarrow> nat option" where
  "findIndex p [] = None"
| "findIndex p (x # xs) = (if p x then Some 0 else map_option Suc (findIndex p xs))"

text \<open>\<open>xs.slice(i, j)\<close> for non-negative \<open>i\<close> and \<open>j\<close>.\<close>

definition slice :: "'a list \<Rightarrow> nat \<Rightarrow> nat \<Rightarrow> 'a list" where
  "slice xs i j = take (j - i) (drop i xs)"

section \<open>Strings, the template expression and replacement\<close>

text \<open>
  SQL text is a list of characters (code units of the Latin-1 range). The line terminators
  that \<open>.\<close> of a regular expression does not match are, in this range, line feed and
  carriage return.
\<close>

definition isLineTerminator :: "char \<Rightarrow> bool" where
  "isLineTerminator c = (c = CHR 0x0A \<or> c = CHR 0x0D)"

text \<open>
  The greedy tail \<open>(.*)\.\.\.\<close> of the default expression on the text that follows the
  closing brace: the longest \<open>g\<close> without line terminator such that the text is \<open>g\<close>, three
  dots and anything.
\<close>

fun matchDots :: "string \<Rightarrow> string option" where
  "matchDots [] = None"
| "matchDots (c # cs) =
     (if isLineTerminator c then None
      else case matchDots cs of
             Some g \<Rightarrow> Some (c # g)
           | None \<Rightarrow> if take 3 (c # cs) = ''...'' then Some [] else None)"

text \<open>
  \<open>(.*)\}(.*)\.\.\.\<close> on the text that follows the opening brace: the first group is
  greedy and gives characters back until a closing brace is found after which the tail
  matches. The result is the pair of captured groups.
\<close>

fun matchClose :: "string \<Rightarrow> (string \<times> string) option" where
  "matchClose [] = None"
| "matchClose (c # cs) =
     (if isLineTerminator c then None
      else case matchClose cs of
             Some (g1, g2) \<Rightarrow> Some (c # g1, g2)
           | None \<Rightarrow>
               if c = CHR ''}'' then
                 (case matchDots cs of Some g2 \<Rightarrow> Some ([], g2) | None \<Rightarrow> None)
               else None)"

text \<open>
  \<open>sql.match(/\{(.*)\}(.*)\.\.\./)\<close>: the leftmost opening brace from which the
  expression matches. The result is the match array: the matched text and the two groups.
\<close>

fun matchDefault :: "string \<Rightarrow> string list option" where
  "matchDefault [] = None"
| "matchDefault (c # cs) =
     (if c = CHR ''{'' then
        (case matchClose cs of
           Some (g1, g2) \<Rightarrow> Some [CHR ''{'' # g1 @ ''}'' @ g2 @ ''...'', g1, g2]
         | None \<Rightarrow> matchDefault cs)
      else matchDefault cs)"

text \<open>\<open>s.replace(/[^?]/g, '').length\<close>: the number of question marks of \<open>s\<close>.\<close>

definition countPlaces :: "string \<Rightarrow> nat" where
  "countPlaces s = length (filter (\<lambda>c. c = CHR ''?'') s)"

text \<open>
  \<open>/^\s*(INSERT|REPLACE)/i.test(sql)\<close>. White space of the Latin-1 range; the
  comparison ignores the case of ASCII letters only.
\<close>

definition isWhiteSpace :: "char \<Rightarrow> bool" where
  "isWhiteSpace c = (c \<in> set [CHR 0x09, CHR 0x0A, CHR 0x0B, CHR 0x0C, CHR 0x0D, CHR 0x20, CHR 0xA0])"

definition upperAscii :: "char \<Rightarrow> char" where
  "upperAscii c =
     (let n = (of_char c :: nat)
      in if 97 \<le> n \<and> n \<le> 122 then char_of (n - 32) else c)"

definition startsWithI :: "string \<Rightarrow> string \<Rightarrow> bool" where
  "startsWithI kw s = (map upperAscii (take (length kw) s) = kw)"

definition isInsertOrReplace :: "string \<Rightarrow> bool" where
  "isInsertOrReplace sql =
     (let s = dropWhile isWhiteSpace sql
      in startsWithI ''INSERT'' s \<or> startsWithI ''REPLACE'' s)"

text \<open>
  \<open>str.replace(pat, repl)\<close> with a string \<open>pat\<close>: the first occurrence of \<open>pat\<close> is
  replaced, and in \<open>repl\<close> the sequences \<open>$$\<close>, \<open>$&\<close>, \<open>$`\<close> and \<open>$'\<close> stand for a
  dollar sign, the matched text, the text before it and the text after it.
\<close>

fun firstOccurrence :: "string \<Rightarrow> string \<Rightarrow> (string \<times> string) option" where
  "firstOccurrence pat [] = (if pat = [] then Some ([], []) else None)"
| "firstOccurrence pat (c # cs) =
     (if take (length pat) (c # cs) = pat then Some ([], drop (length pat) (c # cs))
      else map_option (\<lambda>(b, a). (c # b, a)) (firstOccurrence pat cs))"

fun getSubstitution :: "string \<Rightarrow> string \<Rightarrow> string \<Rightarrow> string \<Rightarrow> string" where
  "getSubstitution m b a (c # d # cs) =
     (if c = CHR ''$'' \<and> d = CHR ''$'' then CHR ''$'' # getSubstitution m b a cs
      else if c = CHR ''$'' \<and> d = CHR ''&'' then m @ getSubstitution m b a cs
      else if c = CHR ''$'' \<and> d = CHR ''`'' then b @ getSubstitution m b a cs
      else if c = CHR ''$'' \<and> d = CHR 0x27 then a @ getSubstitution m b a cs
      else c # getSubstitution m b a (d # cs))"
| "getSubstitution m b a cs = cs"

definition replace :: "string \<Rightarrow> string \<Rightarrow> string \<Rightarrow> string" where
  "replace str pat repl =
     (case firstOccurrence pat str of
        None \<Rightarrow> str
      | Some (b, a) \<Rightarrow> b @ getSubstitution pat b a repl @ a)"

text \<open>
  Modelled from the spec: \<open>toUtil.repeatStr\<close> of the module \<open>./util\<close>, which is not among
  the sources. The expansion builds ``N copies of the fragment joined by the separator'' as
  the fragment followed by \<open>repeatStr(separator + fragment, N - 1)\<close>, so \<open>repeatStr(s, n)\<close>
  is \<open>n\<close> copies of \<open>s\<close>.
\<close>

definition repeatStr :: "string \<Rightarrow> nat \<Rightarrow> string" where
  "repeatStr s n = concat (replicate n s)"

text \<open>
  The statement with \<open>k\<close> groups:
  \<open>sql.replace(pattern[0], pattern[1] + repeatStr(pattern[2] + pattern[1], k - 1))\<close>.
\<close>

definition realSqlOf :: "string \<Rightarrow> string list \<Rightarrow> nat \<Rightarrow> string" where
  "realSqlOf sql pattern k =
     replace sql (pattern ! 0) (pattern ! 1 @ repeatStr (pattern ! 2 @ pattern ! 1) (k - 1))"

section \<open>Handles, the pool registry and errors\<close>

text \<open>
  The options of a handle: \<open>name\<close> and \<open>mustInTrans\<close> are read by the handle itself
  (\<open>JUndefined\<close> stands for an absent property); every other property is a driver option
  and is passed to the driver when the pool is created.
\<close>

record db_options =
  name :: jsval
  mustInTrans :: jsval
  driverOptions :: "(string \<times> jsval) list"

text \<open>
  The private state of a handle (class \<open>Db\<close>): the options, the leased connection
  (\<open>None\<close> while there is none), the transacting flag, the lazy-init callback, the SQL
  in flight and the bound siblings. Connections, pools, callbacks and handles are
  identified by numbers.
\<close>

record db =
  options :: db_options
  conn :: "nat option"
  beginT :: bool
  lazyInit :: "nat option"
  currentSql :: "string option"
  binds :: "nat list option"

text \<open>
  The state the program owns: the handles, the module-level registry \<open>dbPools\<close>
  (from the name of a pool to the pool) and the arrays.
\<close>

record pstate =
  dbs :: "nat \<Rightarrow> db"
  dbPools :: "jsval \<Rightarrow> nat option"
  arrays :: heap

text \<open>
  The errors. The source throws \<open>Error\<close> objects told apart by their message; the names
  are those of the specification: \<open>ConfigurationError\<close> (no name in the options, or
  execution outside a transaction on a \<open>mustInTrans\<close> handle, with the SQL),
  \<open>ConcurrencyError\<close> (with the SQL in flight), \<open>PatternError\<close>,
  \<open>ParameterCountMismatch\<close>, \<open>TooManyRowsError\<close>, and the driver's own errors.
  \<open>TypeError\<close> is raised by the language itself (a method call on \<open>undefined\<close>, a
  method that a value does not have). \<open>Enriched e sql summary\<close> is the error \<open>e\<close> after
  \<open>_exec\<close> has appended the SQL and the JSON text of \<open>summary\<close> to its message; the summary
  of a \<open>params\<close> that is a string is a string.
\<close>

datatype config_problem = NameMissing | NotInTransaction string

datatype summary = ArraySummary "jsval list" | StringSummary string

datatype error =
    ConfigurationError config_problem
  | ConcurrencyError string
  | PatternError
  | ParameterCountMismatch
  | TooManyRowsError
  | DriverError string
  | TypeError
  | Enriched error string summary

text \<open>The constructor of \<open>Db\<close>.\<close>

definition newDb :: "db_options \<Rightarrow> error + db" where
  "newDb opts =
     (if \<not> isString (name opts) then Inl (ConfigurationError NameMissing)
      else Inr \<lparr>options = opts, conn = None, beginT = False, lazyInit = None,
                currentSql = None, binds = None\<rparr>)"

text \<open>
  \<open>if (this[_currentSql])\<close>: the marker is unset (\<open>undefined\<close> or \<open>null\<close>) or a string,
  and the empty string is false in a condition.
\<close>

fun markerSet :: "string option \<Rightarrow> bool" where
  "markerSet None = False"
| "markerSet (Some sql) = (sql \<noteq> [])"

section \<open>Asynchronous functions\<close>

text \<open>
  The driver, as the handle uses it. \<open>query\<close> and \<open>execute\<close> return the pair of the rows
  (for a statement that returns rows) or a result header, and the field descriptions.
\<close>

datatype exec_type = Query | Execute

datatype cmd = BeginTransaction | Commit | Rollback | Release

type_synonym row = "(string \<times> jsval) list"

datatype dbres = Rows "row list" | ResultSetHeader nat

type_synonym fields = "string list"

text \<open>
  An \<open>async\<close> function is a tree of what it does: it returns or throws, it reads or writes
  the program's state, or it calls the driver (or the lazy-init callback) and awaits the
  outcome, which is an error when the promise is rejected. The code between two awaits
  runs without interruption; at an await other functions may run. When a function of the
  class that was awaited ends, its caller goes on at once.
\<close>

datatype 'a task =
    Return 'a
  | Throw error
  | Get "pstate \<Rightarrow> 'a task"
  | Put pstate "'a task"
  | CreatePool "(string \<times> jsval) list" "error + nat \<Rightarrow> 'a task"
  | GetConnection nat "error + nat \<Rightarrow> 'a task"
  | Command cmd nat "error + unit \<Rightarrow> 'a task"
  | Exec nat exec_type string "jsval list" "error + dbres \<times> fields \<Rightarrow> 'a task"
  | LazyInit nat nat "error + unit \<Rightarrow> 'a task"
  | Unfinished

text \<open>
  \<open>Unfinished\<close> is a function that has not come to an end within the bound that the
  model puts on the nesting of cascaded calls (see \<open>rollback\<close> and \<open>commit\<close>); no
  function of the source makes it otherwise.
\<close>

text \<open>\<open>await p\<close> throws when \<open>p\<close> is rejected.\<close>

definition orThrow :: "('v \<Rightarrow> 'a task) \<Rightarrow> error + 'v \<Rightarrow> 'a task" where
  "orThrow k r = (case r of Inl e \<Rightarrow> Throw e | Inr v \<Rightarrow> k v)"

text \<open>Sequencing: \<open>t\<close>, then \<open>f\<close> on its value.\<close>

primrec bindT :: "'a task \<Rightarrow> ('a \<Rightarrow> 'b task) \<Rightarrow> 'b task" where
  "bindT (Return a) f = f a"
| "bindT (Throw e) f = Throw e"
| "bindT (Get k) f = Get (\<lambda>s. bindT (k s) f)"
| "bindT (Put s t) f = Put s (bindT t f)"
| "bindT (CreatePool po k) f = CreatePool po (\<lambda>r. bindT (k r) f)"
| "bindT (GetConnection p k) f = GetConnection p (\<lambda>r. bindT (k r) f)"
| "bindT (Command c n k) f = Command c n (\<lambda>r. bindT (k r) f)"
| "bindT (Exec c ty q ps k) f = Exec c ty q ps (\<lambda>r. bindT (k r) f)"
| "bindT (LazyInit cb h k) f = LazyInit cb h (\<lambda>r. bindT (k r) f)"
| "bindT Unfinished f = Unfinished"

text \<open>\<open>try { t } catch (e) { h e }\<close>\<close>

primrec catchT :: "'a task \<Rightarrow> (error \<Rightarrow> 'a task) \<Rightarrow> 'a task" where
  "catchT (Return a) h = Return a"
| "catchT (Throw e) h = h e"
| "catchT (Get k) h = Get (\<lambda>s. catchT (k s) h)"
| "catchT (Put s t) h = Put s (catchT t h)"
| "catchT (CreatePool po k) h = CreatePool po (\<lambda>r. catchT (k r) h)"
| "catchT (GetConnection p k) h = GetConnection p (\<lambda>r. catchT (k r) h)"
| "catchT (Command c n k) h = Command c n (\<lambda>r. catchT (k r) h)"
| "catchT (Exec c ty q ps k) h = Exec c ty q ps (\<lambda>r. catchT (k r) h)"
| "catchT (LazyInit cb i k) h = LazyInit cb i (\<lambda>r. catchT (k r) h)"
| "catchT Unfinished h = Unfinished"

text \<open>\<open>try { t } finally { fin }\<close>, for a \<open>fin\<close> that neither returns nor throws by itself.\<close>

definition finallyT :: "'a task \<Rightarrow> unit task \<Rightarrow> 'a task" where
  "finallyT t fin =
     bindT (catchT (bindT t (\<lambda>a. Return (Inr a))) (\<lambda>e. Return (Inl e)))
       (\<lambda>r. bindT fin (\<lambda>_. case r of Inl e \<Rightarrow> Throw e | Inr a \<Rightarrow> Return a))"

text \<open>Reading the state, and changing one handle.\<close>

definition modifyDb :: "nat \<Rightarrow> (db \<Rightarrow> db) \<Rightarrow> unit task" where
  "modifyDb h f = Get (\<lambda>s. Put (s\<lparr>dbs := (dbs s)(h := f (dbs s h))\<rparr>) (Return ()))"

subsection \<open>Running a function to its end\<close>

text \<open>
  The calls a function makes are recorded in a log. The driver and the callbacks are a
  parameter of the run: what they answer may depend on everything that was asked before.
\<close>

datatype request =
    ReqCreatePool "(string \<times> jsval) list"
  | ReqGetConnection nat
  | ReqCommand cmd nat
  | ReqExec nat exec_type string "jsval list"
  | ReqLazyInit nat nat

record driver =
  createPool :: "request list \<Rightarrow> (string \<times> jsval) list \<Rightarrow> error + nat"
  getConnection :: "request list \<Rightarrow> nat \<Rightarrow> error + nat"
  command :: "request list \<Rightarrow> cmd \<Rightarrow> nat \<Rightarrow> error + unit"
  exec :: "request list \<Rightarrow> nat \<Rightarrow> exec_type \<Rightarrow> string \<Rightarrow> jsval list \<Rightarrow> error + dbres \<times> fields"
  callback :: "request list \<Rightarrow> nat \<Rightarrow> nat \<Rightarrow> error + unit"

text \<open>
  A function that runs alone on the program's state, from its call to its end: every
  await is answered at once and nothing else runs in between. The result is the value or
  the error (or \<open>NoResult\<close> for a function that is \<open>Unfinished\<close>), the final state and
  the extended log.
\<close>

datatype 'a outcome = Returned 'a | Thrown error | NoResult

primrec run :: "driver \<Rightarrow> 'a task \<Rightarrow> pstate \<Rightarrow> request list \<Rightarrow> 'a outcome \<times> pstate \<times> request list" where
  "run d (Return a) s l = (Returned a, s, l)"
| "run d (Throw e) s l = (Thrown e, s, l)"
| "run d (Get k) s l = run d (k s) s l"
| "run d (Put s' t) s l = run d t s' l"
| "run d (CreatePool po k) s l = run d (k (createPool d l po)) s (l @ [ReqCreatePool po])"
| "run d (GetConnection p k) s l = run d (k (getConnection d l p)) s (l @ [ReqGetConnection p])"
| "run d (Command c n k) s l = run d (k (command d l c n)) s (l @ [ReqCommand c n])"
| "run d (Exec c ty q ps k) s l = run d (k (exec d l c ty q ps)) s (l @ [ReqExec c ty q ps])"
| "run d (LazyInit cb h k) s l = run d (k (callback d l cb h)) s (l @ [ReqLazyInit cb h])"
| "run d Unfinished s l = (NoResult, s, l)"

section \<open>The class \<open>Db\<close>\<close>

subsection \<open>\<open>_init\<close>\<close>

text \<open>
  The pool of the handle's name is created when the registry has none
  (\<open>hasOwnPropertySafe\<close>) and is registered when the creation has been awaited; then a
  connection is leased, the deferred transaction is started and the lazy-init callback is
  called.
\<close>

text \<open>
  Modelled from the spec: \<open>toUtil.hasOwnPropertySafe\<close> and \<open>toUtil.deepCopy\<close> of the module
  \<open>./util\<close>, which is not among the sources. The registry ``creates a pool for \<open>name\<close>
  on first call after stripping handle-only keys (\<open>name\<close>, \<open>mustInTrans\<close>) from options;
  returns the cached pool on later calls'', and a call may ``pass an explicit cap''. So
  \<open>hasOwnPropertySafe(obj, key)\<close> tells whether \<open>obj\<close> has the property \<open>key\<close>; its argument
  here is the property as an option, \<open>None\<close> when the object has no such property. The
  options that the pool is created with are a copy of the handle's options without
  \<open>name\<close> and \<open>mustInTrans\<close>.
\<close>

definition hasOwnPropertySafe :: "'a option \<Rightarrow> bool" where
  "hasOwnPropertySafe property = (property \<noteq> None)"

definition poolOptions :: "db_options \<Rightarrow> (string \<times> jsval) list" where
  "poolOptions opts = driverOptions opts"

definition withConn :: "nat \<Rightarrow> (nat \<Rightarrow> 'a task) \<Rightarrow> 'a task" where
  "withConn h k = Get (\<lambda>s. case conn (dbs s h) of None \<Rightarrow> Throw TypeError | Some c \<Rightarrow> k c)"

definition db_init :: "nat \<Rightarrow> unit task" where
  "db_init h =
     Get (\<lambda>s.
       if conn (dbs s h) \<noteq> None then Return ()
       else
         bindT
           (if \<not> hasOwnPropertySafe (dbPools s (name (options (dbs s h)))) then
              CreatePool (poolOptions (options (dbs s h)))
                (orThrow (\<lambda>p. Get (\<lambda>s1.
                   Put (s1\<lparr>dbPools := (dbPools s1)(name (options (dbs s h)) \<mapsto> p)\<rparr>)
                     (Return ()))))
            else Return ())
           (\<lambda>_. Get (\<lambda>s2.
              case dbPools s2 (name (options (dbs s2 h))) of
                None \<Rightarrow> Throw TypeError
              | Some p \<Rightarrow>
                  GetConnection p (orThrow (\<lambda>c.
                    bindT (modifyDb h (\<lambda>d. d\<lparr>conn := Some c\<rparr>))
                      (\<lambda>_. bindT
                         (Get (\<lambda>s3.
                            if beginT (dbs s3 h) then
                              withConn h (\<lambda>c'. Command BeginTransaction c' (orThrow Return))
                            else Return ()))
                         (\<lambda>_. Get (\<lambda>s4.
                            case lazyInit (dbs s4 h) of
                              None \<Rightarrow> Return ()
                            | Some cb \<Rightarrow> LazyInit cb h (orThrow Return)))))))))"

text \<open>\<open>if (!this[_conn]) await this._init()\<close>\<close>

definition ensureInit :: "nat \<Rightarrow> unit task" where
  "ensureInit h = Get (\<lambda>s. if conn (dbs s h) = None then db_init h else Return ())"

subsection \<open>\<open>_exec\<close>\<close>

text \<open>
  The options of a call: \<open>fields\<close> (here \<open>fieldsOpt\<close>), \<open>regexp\<close> (the result of
  \<open>sql.match\<close> with the given expression, as a function of the SQL) and \<open>maxRow\<close>, a
  number of groups; \<open>None\<close> is an absent property.
\<close>

record call_options =
  fieldsOpt :: bool
  regexp :: "(string \<Rightarrow> string list option) option"
  maxRow :: "nat option"

definition noOptions :: call_options where
  "noOptions = \<lparr>fieldsOpt = False, regexp = None, maxRow = None\<rparr>"

text \<open>
  The local variable \<open>params\<close>: an array of the caller, an array made by \<open>_exec\<close> itself
  (the default \<open>[]\<close>, or \<open>[params]\<close>), or a value that is no array.
\<close>

datatype params = Shared addr | Local "jsval list" | Scalar jsval

fun ofArg :: "jsval \<Rightarrow> params" where
  "ofArg JUndefined = Local []"
| "ofArg (JArr a) = Shared a"
| "ofArg v = Scalar v"

text \<open>\<open>if (params !== undefined && !Array.isArray(params)) params = [params]\<close>\<close>

fun normalize :: "params \<Rightarrow> params" where
  "normalize (Scalar v) = Local [v]"
| "normalize p = p"

fun elems :: "heap \<Rightarrow> params \<Rightarrow> jsval list" where
  "elems hp (Shared a) = hp a"
| "elems hp (Local xs) = xs"
| "elems hp (Scalar v) = []"

text \<open>The decimal digits of a number, for the notes of the summary.\<close>

fun showNat :: "nat \<Rightarrow> string" where
  "showNat n =
     (if n < 10 then [''0123456789'' ! n]
      else showNat (n div 10) @ [''0123456789'' ! (n mod 10)])"

declare showNat.simps [simp del]

definition itemsNote :: "nat \<Rightarrow> jsval" where
  "itemsNote k = JStr (''... '' @ showNat k @ '' items ...'')"

text \<open>
  \<open>if (Array.isArray(d) && d.length > 5) d.splice(5, d.length - 5, note)\<close> for each \<open>d\<close> of
  the summary, in order; the arguments of \<open>splice\<close> are computed before it changes \<open>d\<close>.
\<close>

fun capNested :: "heap \<Rightarrow> jsval list \<Rightarrow> heap" where
  "capNested hp [] = hp"
| "capNested hp (JArr a # ds) =
     (if length (hp a) > 5
      then capNested (hp(a := take 5 (hp a) @ [itemsNote (length (hp a) - 5)])) ds
      else capNested hp ds)"
| "capNested hp (d # ds) = capNested hp ds"

text \<open>\<open>params.slice(0, 50)\<close> and the note that is pushed when entries were left out.\<close>

definition summaryOf :: "jsval list \<Rightarrow> jsval list" where
  "summaryOf ps =
     (let summary = take 50 ps
      in if length summary < length ps then summary @ [itemsNote (length ps - length summary)]
         else summary)"

text \<open>
  The \<open>catch\<close> block of \<open>_exec\<close>. A \<open>params\<close> that is a string has \<open>slice\<close> and \<open>length\<close>
  but no \<open>push\<close>; any other value that is no array has no \<open>slice\<close>. The JSON text of the
  summary is not rendered: the error carries the summary, whose arrays are read in the
  store as it is then (\<open>JSON.stringify\<close> itself fails on an array that contains itself,
  which is not modelled).
\<close>

definition execCatch :: "string \<Rightarrow> params \<Rightarrow> error \<Rightarrow> 'a task" where
  "execCatch sql params e =
     (case params of
        Scalar (JStr str) \<Rightarrow>
          if length (take 50 str) < length str then Throw TypeError
          else Throw (Enriched e sql (StringSummary str))
      | Scalar v \<Rightarrow> Throw TypeError
      | _ \<Rightarrow>
          Get (\<lambda>s.
            let summary = summaryOf (elems (arrays s) params)
            in Put (s\<lparr>arrays := capNested (arrays s) summary\<rparr>)
                 (Throw (Enriched e sql (ArraySummary summary)))))"

text \<open>
  The number of groups: \<open>is2d ? data.length : data.length / placeNum\<close>, accepted when
  \<open>patternNum > 0 && Number.isInteger(patternNum)\<close>. A division by zero gives
  \<open>Infinity\<close> or \<open>NaN\<close>, which is no integer; a quotient of two array lengths is an
  integer exactly when the division leaves no remainder. \<open>None\<close> is a rejected number.
\<close>

definition patternNumOf :: "bool \<Rightarrow> nat \<Rightarrow> nat \<Rightarrow> nat option" where
  "patternNumOf is2d len placeNum =
     (if is2d then (if len > 0 then Some len else None)
      else if placeNum = 0 then None
      else if len mod placeNum \<noteq> 0 then None
      else if len div placeNum > 0 then Some (len div placeNum)
      else None)"

text \<open>What \<open>_exec\<close> returns: \<open>rt\<close>, \<open>rt[0]\<close>, or the array \<open>results\<close>.\<close>

datatype result = Full dbres fields | Single dbres | Chunks "dbres list"

definition resultOf :: "call_options \<Rightarrow> dbres \<times> fields \<Rightarrow> result" where
  "resultOf opts rt = (if fieldsOpt opts then Full (fst rt) (snd rt) else Single (fst rt))"

text \<open>
  The loop over the full chunks: \<open>k\<close> iterations are left and \<open>i\<close> is the loop variable.
  Each iteration slices the batch array as it is then.
\<close>

primrec execLoop ::
  "nat \<Rightarrow> exec_type \<Rightarrow> string \<Rightarrow> addr \<Rightarrow> jsval list \<Rightarrow> jsval list \<Rightarrow> nat \<Rightarrow>
   nat \<Rightarrow> nat \<Rightarrow> dbres list \<Rightarrow> dbres list task" where
  "execLoop h ty realSql a left right dataNum 0 i results = Return results"
| "execLoop h ty realSql a left right dataNum (Suc k) i results =
     Get (\<lambda>s.
       let allParams = concat_js (arrays s) left
                         (slice (arrays s a) (i * dataNum) ((i + 1) * dataNum)) right
       in withConn h (\<lambda>c. Exec c ty realSql allParams
            (orThrow (\<lambda>rt. execLoop h ty realSql a left right dataNum k (Suc i)
                               (results @ [fst rt])))))"

text \<open>The branch of \<open>_exec\<close> for a statement with a pattern, with the index of the batch array.\<close>

definition execPattern ::
  "nat \<Rightarrow> exec_type \<Rightarrow> string \<Rightarrow> call_options \<Rightarrow> jsval list \<Rightarrow> nat \<Rightarrow> result task" where
  "execPattern h ty sql opts ps patternIndex =
     Get (\<lambda>s.
       case (case regexp opts of Some re \<Rightarrow> re sql | None \<Rightarrow> matchDefault sql) of
         None \<Rightarrow> Throw PatternError
       | Some pattern \<Rightarrow>
           if length pattern \<noteq> 3 then Throw PatternError
           else
             (case ps ! patternIndex of
                JArr a \<Rightarrow>
                  (let data = arrays s a;
                       placeNum = countPlaces (pattern ! 0);
                       is2d = (case data of [] \<Rightarrow> False | d0 # _ \<Rightarrow> isArray d0)
                   in case patternNumOf is2d (length data) placeNum of
                        None \<Rightarrow> Throw ParameterCountMismatch
                      | Some patternNum \<Rightarrow>
                          (let leftParams = take patternIndex ps;
                               rightParams = drop (patternIndex + 1) ps
                           in if \<not> hasOwnPropertySafe (maxRow opts) \<and> \<not> isInsertOrReplace sql then
                                withConn h (\<lambda>c.
                                  Exec c ty (realSqlOf sql pattern patternNum)
                                    (concat_js (arrays s) leftParams data rightParams)
                                    (orThrow (\<lambda>rt. Return (resultOf opts rt))))
                              else
                                (let maxRow0 = (case maxRow opts of Some m \<Rightarrow> m | None \<Rightarrow> 1000);
                                     maxRow1 = (if maxRow0 = 0 then patternNum else maxRow0);
                                     n = patternNum div maxRow1;
                                     dataNum = (if is2d then maxRow1 else maxRow1 * placeNum);
                                     realSql = realSqlOf sql pattern maxRow1
                                 in bindT
                                      (execLoop h ty realSql a leftParams rightParams dataNum n 0 [])
                                      (\<lambda>results.
                                         let rest = patternNum - maxRow1 * n
                                         in if rest > 0 then
                                              Get (\<lambda>s1.
                                                withConn h (\<lambda>c.
                                                  Exec c (if rest > 10 then Query else ty)
                                                    (realSqlOf sql pattern rest)
                                                    (concat_js (arrays s1) leftParams
                                                       (drop (if is2d then n * maxRow1
                                                              else n * maxRow1 * placeNum)
                                                          (arrays s1 a))
                                                       rightParams)
                                                    (orThrow (\<lambda>rt.
                                                       Return (Chunks (results @ [fst rt]))))))
                                            else Return (Chunks results)))))
              | _ \<Rightarrow> Throw TypeError))"

text \<open>The \<open>try\<close> block after \<open>_init\<close>: the marker is set, \<open>params\<close> is an array.\<close>

definition execMain ::
  "nat \<Rightarrow> exec_type \<Rightarrow> string \<Rightarrow> params \<Rightarrow> call_options \<Rightarrow> result task" where
  "execMain h ty sql params opts =
     bindT (modifyDb h (\<lambda>d. d\<lparr>currentSql := Some sql\<rparr>))
       (\<lambda>_. Get (\<lambda>s.
          let ps = elems (arrays s) params
          in case findIndex isArray ps of
               None \<Rightarrow>
                 withConn h (\<lambda>c. Exec c ty sql ps (orThrow (\<lambda>rt. Return (resultOf opts rt))))
             | Some patternIndex \<Rightarrow> execPattern h ty sql opts ps patternIndex))"

text \<open>
  \<open>_exec(type, sql, params, options)\<close>. The two checks come before the \<open>try\<close>. In the
  \<open>try\<close>, \<open>params\<close> is reassigned once, right after \<open>_init\<close>: so an error of \<open>_init\<close> is
  caught with \<open>params\<close> as it was passed, and any later error with the array. The \<open>catch\<close>
  block always throws, and the \<open>finally\<close> block resets the marker.
\<close>

definition db_exec ::
  "nat \<Rightarrow> exec_type \<Rightarrow> string \<Rightarrow> jsval \<Rightarrow> call_options \<Rightarrow> result task" where
  "db_exec h ty sql params opts =
     Get (\<lambda>s.
       if markerSet (currentSql (dbs s h))
       then Throw (ConcurrencyError (case currentSql (dbs s h) of Some q \<Rightarrow> q | None \<Rightarrow> []))
       else if \<not> beginT (dbs s h) \<and> truthy (mustInTrans (options (dbs s h)))
       then Throw (ConfigurationError (NotInTransaction sql))
       else
         finallyT
           (bindT
              (catchT (ensureInit h) (execCatch sql (ofArg params)))
              (\<lambda>_. catchT (execMain h ty sql (normalize (ofArg params)) opts)
                      (execCatch sql (normalize (ofArg params)))))
           (modifyDb h (\<lambda>d. d\<lparr>currentSql := None\<rparr>)))"

definition query :: "nat \<Rightarrow> string \<Rightarrow> jsval \<Rightarrow> call_options \<Rightarrow> result task" where
  "query h sql params opts = db_exec h Query sql params opts"

definition execute :: "nat \<Rightarrow> string \<Rightarrow> jsval \<Rightarrow> call_options \<Rightarrow> result task" where
  "execute h sql params opts = db_exec h Execute sql params opts"

subsection \<open>\<open>queryOne\<close> and \<open>executeOne\<close>\<close>

text \<open>
  \<open>rt.length > 1\<close> and \<open>rt[0]\<close> on what \<open>_exec\<close> returned. A result header has neither
  \<open>length\<close> nor an element \<open>0\<close>; \<open>NoRecord\<close> is \<open>undefined\<close>.
\<close>

datatype record0 = NoRecord | Record row | ChunkResult dbres

fun moreThanOne :: "result \<Rightarrow> bool" where
  "moreThanOne (Single (Rows rs)) = (length rs > 1)"
| "moreThanOne (Single (ResultSetHeader n)) = False"
| "moreThanOne (Full r f) = True"
| "moreThanOne (Chunks cs) = (length cs > 1)"

fun first :: "result \<Rightarrow> record0" where
  "first (Single (Rows [])) = NoRecord"
| "first (Single (Rows (r # rs))) = Record r"
| "first (Single (ResultSetHeader n)) = NoRecord"
| "first (Full r f) = ChunkResult r"
| "first (Chunks []) = NoRecord"
| "first (Chunks (c # cs)) = ChunkResult c"

definition queryOne :: "nat \<Rightarrow> string \<Rightarrow> jsval \<Rightarrow> record0 task" where
  "queryOne h sql params =
     bindT (query h sql params noOptions)
       (\<lambda>rt. if moreThanOne rt then Throw TooManyRowsError else Return (first rt))"

definition executeOne :: "nat \<Rightarrow> string \<Rightarrow> jsval \<Rightarrow> record0 task" where
  "executeOne h sql params =
     bindT (execute h sql params noOptions)
       (\<lambda>rt. if moreThanOne rt then Throw TooManyRowsError else Return (first rt))"

subsection \<open>\<open>commit\<close>, \<open>rollback\<close> and \<open>release\<close>\<close>

text \<open>\<open>for (const db of dbs) await f(db)\<close>\<close>

primrec forEachT :: "nat list \<Rightarrow> (nat \<Rightarrow> unit task) \<Rightarrow> unit task" where
  "forEachT [] f = Return ()"
| "forEachT (x # xs) f = bindT (f x) (\<lambda>_. forEachT xs f)"

text \<open>
  The commands cascade to the bound siblings, which cascade to theirs. The first argument
  bounds the nesting of the cascade; a cascade that is nested deeper is \<open>Unfinished\<close>.
\<close>

primrec rollback :: "nat \<Rightarrow> nat \<Rightarrow> unit task" where
  "rollback 0 h = Unfinished"
| "rollback (Suc depth) h =
     Get (\<lambda>s.
       bindT (case binds (dbs s h) of None \<Rightarrow> Return () | Some ds \<Rightarrow> forEachT ds (rollback depth))
         (\<lambda>_. bindT
            (Get (\<lambda>s1.
               if beginT (dbs s1 h) \<and> conn (dbs s1 h) \<noteq> None
               then withConn h (\<lambda>c. Command Rollback c (orThrow Return))
               else Return ()))
            (\<lambda>_. modifyDb h (\<lambda>d. d\<lparr>beginT := False\<rparr>))))"

primrec commit :: "nat \<Rightarrow> nat \<Rightarrow> bool \<Rightarrow> bool \<Rightarrow> unit task" where
  "commit 0 h keepTrans reinit = Unfinished"
| "commit (Suc depth) h keepTrans reinit =
     Get (\<lambda>s.
       if markerSet (currentSql (dbs s h))
       then Throw (ConcurrencyError (case currentSql (dbs s h) of Some q \<Rightarrow> q | None \<Rightarrow> []))
       else
         bindT (case binds (dbs s h) of
                  None \<Rightarrow> Return ()
                | Some ds \<Rightarrow> forEachT ds (\<lambda>db. commit depth db keepTrans reinit))
           (\<lambda>_. bindT
              (Get (\<lambda>s1.
                 if beginT (dbs s1 h) \<and> conn (dbs s1 h) \<noteq> None
                 then withConn h (\<lambda>c. Command Commit c (orThrow Return))
                 else Return ()))
              (\<lambda>_. if keepTrans then
                      withConn h (\<lambda>c. Command BeginTransaction c (orThrow (\<lambda>_.
                        Get (\<lambda>s2.
                          case lazyInit (dbs s2 h) of
                            Some cb \<Rightarrow> if reinit then LazyInit cb h (orThrow Return) else Return ()
                          | None \<Rightarrow> Return ()))))
                    else modifyDb h (\<lambda>d. d\<lparr>beginT := False\<rparr>))))"

definition release :: "nat \<Rightarrow> nat \<Rightarrow> unit task" where
  "release depth h =
     bindT (rollback depth h)
       (\<lambda>_. Get (\<lambda>s.
          case conn (dbs s h) of
            Some c \<Rightarrow> Command Release c (orThrow (\<lambda>_. modifyDb h (\<lambda>d. d\<lparr>conn := None\<rparr>)))
          | None \<Rightarrow> Return ()))"

section \<open>Functions that run at overlapping times\<close>

text \<open>
  A call of an \<open>async\<close> function runs at once up to its first await (\<open>start\<close>). When the
  awaited outcome arrives, the function goes on up to its next await (\<open>resume\<close>); here the
  call is put in the log when it is answered. Several functions that have been called
  are resumed one at a time, in the order of a schedule.
\<close>

primrec start :: "'a task \<Rightarrow> pstate \<Rightarrow> 'a task \<times> pstate" where
  "start (Return a) s = (Return a, s)"
| "start (Throw e) s = (Throw e, s)"
| "start (Get k) s = start (k s) s"
| "start (Put s' t) s = start t s'"
| "start (CreatePool po k) s = (CreatePool po k, s)"
| "start (GetConnection p k) s = (GetConnection p k, s)"
| "start (Command c n k) s = (Command c n k, s)"
| "start (Exec c ty q ps k) s = (Exec c ty q ps k, s)"
| "start (LazyInit cb h k) s = (LazyInit cb h k, s)"
| "start Unfinished s = (Unfinished, s)"

fun resume :: "driver \<Rightarrow> 'a task \<Rightarrow> pstate \<Rightarrow> request list \<Rightarrow> 'a task \<times> pstate \<times> request list" where
  "resume d (CreatePool po k) s l =
     (case start (k (createPool d l po)) s of (t, s') \<Rightarrow> (t, s', l @ [ReqCreatePool po]))"
| "resume d (GetConnection p k) s l =
     (case start (k (getConnection d l p)) s of (t, s') \<Rightarrow> (t, s', l @ [ReqGetConnection p]))"
| "resume d (Command c n k) s l =
     (case start (k (command d l c n)) s of (t, s') \<Rightarrow> (t, s', l @ [ReqCommand c n]))"
| "resume d (Exec c ty q ps k) s l =
     (case start (k (exec d l c ty q ps)) s of (t, s') \<Rightarrow> (t, s', l @ [ReqExec c ty q ps]))"
| "resume d (LazyInit cb h k) s l =
     (case start (k (callback d l cb h)) s of (t, s') \<Rightarrow> (t, s', l @ [ReqLazyInit cb h]))"
| "resume d t s l = (case start t s of (t', s') \<Rightarrow> (t', s', l))"

text \<open>The calls are made one after the other, each up to its first await.\<close>

fun startAll :: "'a task list \<Rightarrow> pstate \<Rightarrow> 'a task list \<times> pstate" where
  "startAll [] s = ([], s)"
| "startAll (t # ts) s =
     (case start t s of (t', s') \<Rightarrow> (case startAll ts s' of (ts', s'') \<Rightarrow> (t' # ts', s'')))"

fun interleave ::
  "driver \<Rightarrow> nat list \<Rightarrow> 'a task list \<Rightarrow> pstate \<Rightarrow> request list \<Rightarrow>
   'a task list \<times> pstate \<times> request list" where
  "interleave d [] ts s l = (ts, s, l)"
| "interleave d (i # sched) ts s l =
     (if i < length ts then
        (case resume d (ts ! i) s l of (t, s', l') \<Rightarrow> interleave d sched (ts[i := t]) s' l')
      else interleave d sched ts s l)"

definition concurrently ::
  "driver \<Rightarrow> nat list \<Rightarrow> 'a task list \<Rightarrow> pstate \<Rightarrow> 'a task list \<times> pstate \<times> request list" where
  "concurrently d sched calls s =
     (case startAll calls s of (ts, s') \<Rightarrow> interleave d sched ts s' [])"

section \<open>Notions used in the statements\<close>


text \<open>
  A state \<open>t\<close> in which the handles are bound as in \<open>s\<close> and no transaction is open that
  is not open in \<open>s\<close>.
\<close>

definition settled :: "pstate \<Rightarrow> pstate \<Rightarrow> bool" where
  "settled s t =
     (\<forall>g. binds (dbs t g) = binds (dbs s g) \<and> (\<not> beginT (dbs s g) \<longrightarrow> \<not> beginT (dbs t g)))"

text \<open>The handles bound to a handle: what \<open>this.binds\<close> lists, none when it is not set.\<close>

definition siblings :: "pstate \<Rightarrow> nat \<Rightarrow> nat list" where
  "siblings s h = (case binds (dbs s h) of None \<Rightarrow> [] | Some ds \<Rightarrow> ds)"

text \<open>
  The handles bound to \<open>h\<close>, those bound to them, and so on, are nested less than \<open>n\<close>
  deep: a cascade of depth \<open>n\<close> that starts at \<open>h\<close> reaches all of them.
\<close>

primrec boundWithin :: "nat \<Rightarrow> pstate \<Rightarrow> nat \<Rightarrow> bool" where
  "boundWithin 0 s h = False"
| "boundWithin (Suc n) s h = (\<forall>g \<in> set (siblings s h). boundWithin n s g)"

text \<open>
  What a cascade of \<open>rollback\<close> does between a state and log \<open>s\<close>, \<open>l\<close> and a later state
  and log: no connection changes, the handles stay bound as they were, no transaction is
  opened, the driver is asked nothing but to roll back, on connections of handles whose
  transaction was open, and on the connection of every handle whose transaction is no
  longer open.
\<close>

definition rolledBack :: "pstate \<Rightarrow> request list \<Rightarrow> pstate \<Rightarrow> request list \<Rightarrow> bool" where
  "rolledBack s l s' l' =
     (settled s s' \<and> (\<forall>g. conn (dbs s' g) = conn (dbs s g)) \<and>
      (\<exists>cs. l' = l @ map (ReqCommand Rollback) cs \<and>
         (\<forall>k \<in> set cs. \<exists>g. beginT (dbs s g) \<and> conn (dbs s g) = Some k) \<and>
         (\<forall>g c. beginT (dbs s g) \<and> \<not> beginT (dbs s' g) \<and> conn (dbs s g) = Some c
                  \<longrightarrow> c \<in> set cs)))"


text \<open>SQL text without its blanks, to compare statements up to spacing.\<close>

definition notBlank :: "char \<Rightarrow> bool" where
  "notBlank c = (c \<noteq> CHR '' '')"

definition squeeze :: "string \<Rightarrow> string" where
  "squeeze q = filter notBlank q"

text \<open>The statements that a log records, in order.\<close>

fun statements :: "request list \<Rightarrow> (exec_type \<times> string \<times> jsval list) list" where
  "statements [] = []"
| "statements (ReqExec c ty q ps # rs) = (ty, q, ps) # statements rs"
| "statements (r # rs) = statements rs"

fun poolsCreated :: "request list \<Rightarrow> nat" where
  "poolsCreated [] = 0"
| "poolsCreated (ReqCreatePool po # rs) = Suc (poolsCreated rs)"
| "poolsCreated (r # rs) = poolsCreated rs"

section \<open>Example handles and drivers\<close>

definition exampleOptions :: db_options where
  "exampleOptions =
     \<lparr>name = JStr ''main'', mustInTrans = JBool False,
      driverOptions = [(''host'', JStr ''localhost'')]\<rparr>"

text \<open>A handle as the constructor makes it, and one that holds connection \<open>7\<close>.\<close>

definition initialDb :: db where
  "initialDb = \<lparr>options = exampleOptions, conn = None, beginT = False, lazyInit = None,
                currentSql = None, binds = None\<rparr>"

definition connectedDb :: db where
  "connectedDb = initialDb\<lparr>conn := Some 7\<rparr>"

text \<open>
  States in which every handle is such a handle (in the last one with a transaction
  open), with the given arrays.
\<close>

definition initialState :: "heap \<Rightarrow> pstate" where
  "initialState hp = \<lparr>dbs = (\<lambda>h. initialDb), dbPools = Map.empty, arrays = hp\<rparr>"

definition connectedState :: "heap \<Rightarrow> pstate" where
  "connectedState hp = \<lparr>dbs = (\<lambda>h. connectedDb), dbPools = [JStr ''main'' \<mapsto> 3], arrays = hp\<rparr>"

definition transactingState :: "heap \<Rightarrow> pstate" where
  "transactingState hp =
     \<lparr>dbs = (\<lambda>h. connectedDb\<lparr>beginT := True\<rparr>), dbPools = [JStr ''main'' \<mapsto> 3],
      arrays = hp\<rparr>"

text \<open>
  A state in which handle \<open>1\<close>, on connection \<open>8\<close>, is bound to handle \<open>0\<close>, on connection
  \<open>7\<close>, both with a transaction open.
\<close>

definition boundState :: "heap \<Rightarrow> pstate" where
  "boundState hp =
     \<lparr>dbs = (\<lambda>h. if h = 0 then connectedDb\<lparr>beginT := True, binds := Some [1]\<rparr>
                 else if h = 1 then connectedDb\<lparr>conn := Some 8, beginT := True\<rparr>
                 else initialDb),
      dbPools = [JStr ''main'' \<mapsto> 3], arrays = hp\<rparr>"

text \<open>
  A driver that never fails: a new pool or connection is numbered by the length of the
  log, and every statement is answered with the given rows.
\<close>

definition answering :: "dbres \<Rightarrow> driver" where
  "answering r =
     \<lparr>createPool = (\<lambda>l po. Inr (length l)), getConnection = (\<lambda>l p. Inr (length l)),
      command = (\<lambda>l c n. Inr ()), exec = (\<lambda>l c ty q ps. Inr (r, [])),
      callback = (\<lambda>l cb h. Inr ())\<rparr>"

text \<open>A driver whose statements all fail.\<close>

definition failing :: "error \<Rightarrow> driver" where
  "failing e =
     \<lparr>createPool = (\<lambda>l po. Inr (length l)), getConnection = (\<lambda>l p. Inr (length l)),
      command = (\<lambda>l c n. Inr ()), exec = (\<lambda>l c ty q ps. Inl e),
      callback = (\<lambda>l cb h. Inr ())\<rparr>"

text \<open>Arrays for the examples: the array at address \<open>a\<close> of an association list.\<close>

fun heapOf :: "(addr \<times> jsval list) list \<Rightarrow> heap" where
  "heapOf [] a = []"
| "heapOf ((b, xs) # rest) a = (if a = b then xs else heapOf rest a)"

section \<open>Running sequences, handlers and updates\<close>

lemma run_bindT:
  "run d (bindT t f) s l =
     (case run d t s l of
        (Returned a, s', l') \<Rightarrow> run d (f a) s' l'
      | (Thrown e, s', l') \<Rightarrow> (Thrown e, s', l')
      | (NoResult, s', l') \<Rightarrow> (NoResult, s', l'))"
  by (induction t arbitrary: s l) simp_all

lemma run_catchT:
  "run d (catchT t h) s l =
     (case run d t s l of
        (Returned a, s', l') \<Rightarrow> (Returned a, s', l')
      | (Thrown e, s', l') \<Rightarrow> run d (h e) s' l'
      | (NoResult, s', l') \<Rightarrow> (NoResult, s', l'))"
  by (induction t arbitrary: s l) simp_all

lemma run_finallyT:
  "run d (finallyT t fin) s l =
     (case run d t s l of
        (Returned a, s', l') \<Rightarrow>
          (case run d fin s' l' of
             (Returned u, s'', l'') \<Rightarrow> (Returned a, s'', l'')
           | (Thrown e, s'', l'') \<Rightarrow> (Thrown e, s'', l'')
           | (NoResult, s'', l'') \<Rightarrow> (NoResult, s'', l''))
      | (Thrown e, s', l') \<Rightarrow>
          (case run d fin s' l' of
             (Returned u, s'', l'') \<Rightarrow> (Thrown e, s'', l'')
           | (Thrown e', s'', l'') \<Rightarrow> (Thrown e', s'', l'')
           | (NoResult, s'', l'') \<Rightarrow> (NoResult, s'', l''))
      | (NoResult, s', l') \<Rightarrow> (NoResult, s', l'))"
  by (simp add: finallyT_def run_bindT run_catchT split: prod.splits outcome.splits sum.splits)

lemma run_modifyDb:
  "run d (modifyDb h f) s l = (Returned (), s\<lparr>dbs := (dbs s)(h := f (dbs s h))\<rparr>, l)"
  by (simp add: modifyDb_def)

text \<open>The facts that evaluate a call on the example handles and drivers.\<close>

lemmas run_simps = run_bindT run_catchT run_finallyT run_modifyDb

lemmas exec_defs =
  query_def execute_def db_exec_def ensureInit_def db_init_def execMain_def execPattern_def
  execCatch_def withConn_def orThrow_def noOptions_def resultOf_def hasOwnPropertySafe_def
  poolOptions_def

lemmas string_defs =
  realSqlOf_def replace_def repeatStr_def countPlaces_def isLineTerminator_def
  isInsertOrReplace_def isWhiteSpace_def startsWithI_def upperAscii_def patternNumOf_def
  concat_js_def squeeze_def notBlank_def Let_def numeral_2_eq_2 [symmetric]

lemmas example_defs =
  initialState_def connectedState_def transactingState_def initialDb_def connectedDb_def
  exampleOptions_def answering_def failing_def

lemma replicate_numeral:
  "replicate (numeral k) x = x # replicate (pred_numeral k) x"
  by (simp add: numeral_eq_Suc)

section \<open>Construction\<close>

text \<open>
  C7, as the specification has it: construction fails with a configuration error for every
  options value whose name is absent or empty. It does not for the empty name: the
  constructor asks for a name of type string, and the empty string is one.
\<close>

theorem newDb_empty_name_counterexample:
  "newDb \<lparr>name = JStr [], mustInTrans = JUndefined, driverOptions = []\<rparr> =
     Inr \<lparr>options = \<lparr>name = JStr [], mustInTrans = JUndefined, driverOptions = []\<rparr>,
          conn = None, beginT = False, lazyInit = None, currentSql = None, binds = None\<rparr>"
  by (simp add: newDb_def)

text \<open>
  C7, amended: construction succeeds exactly when the name of the options is a string (the
  empty string too), and gives a handle without connection, transaction, callback,
  statement in flight or siblings; in every other case (the name is absent or is no
  string) it fails with the configuration error about the name.
\<close>

theorem newDb_name:
  "((\<exists>n. name opts = JStr n) \<longleftrightarrow>
      newDb opts = Inr \<lparr>options = opts, conn = None, beginT = False, lazyInit = None,
                         currentSql = None, binds = None\<rparr>) \<and>
   ((\<forall>n. name opts \<noteq> JStr n) \<longleftrightarrow> newDb opts = Inl (ConfigurationError NameMissing))"
  by (cases "name opts") (simp_all add: newDb_def)

section \<open>\<open>queryOne\<close> and \<open>executeOne\<close>\<close>

text \<open>
  C6: when the underlying \<open>query\<close> (for \<open>queryOne\<close>) or \<open>execute\<close> (for \<open>executeOne\<close>)
  yields rows, the call ends in the same state and yields nothing for no row, the row for
  exactly one row, and fails with \<open>TooManyRowsError\<close> for two or more rows.
\<close>

theorem queryOne_rows:
  "(run d (query h sql params noOptions) s l = (Returned (Single (Rows rs)), s', l') \<longrightarrow>
      run d (queryOne h sql params) s l =
        (case rs of [] \<Rightarrow> Returned NoRecord | [r] \<Rightarrow> Returned (Record r)
                  | r # r' # rs' \<Rightarrow> Thrown TooManyRowsError, s', l')) \<and>
   (run d (execute h sql params noOptions) s l = (Returned (Single (Rows rs)), s', l') \<longrightarrow>
      run d (executeOne h sql params) s l =
        (case rs of [] \<Rightarrow> Returned NoRecord | [r] \<Rightarrow> Returned (Record r)
                  | r # r' # rs' \<Rightarrow> Thrown TooManyRowsError, s', l'))"
  by (simp add: queryOne_def executeOne_def run_bindT split: list.splits)

theorem queryOne_rows_witness:
  "run (answering (Rows [[(''id'', JNum 1)], [(''id'', JNum 2)]]))
       (queryOne 0 ''SELECT * FROM t'' JUndefined) (connectedState (\<lambda>a. [])) [] =
     (Thrown TooManyRowsError, connectedState (\<lambda>a. []), [ReqExec 7 Query ''SELECT * FROM t'' []]) \<and>
   run (answering (Rows [[(''id'', JNum 1)]]))
       (executeOne 0 ''SELECT * FROM t WHERE id = ?'' (JNum 1)) (connectedState (\<lambda>a. [])) [] =
     (Returned (Record [(''id'', JNum 1)]), connectedState (\<lambda>a. []),
      [ReqExec 7 Execute ''SELECT * FROM t WHERE id = ?'' [JNum 1]])"
proof -
  have q: "run (answering (Rows [[(''id'', JNum 1)], [(''id'', JNum 2)]]))
       (query 0 ''SELECT * FROM t'' JUndefined noOptions) (connectedState (\<lambda>a. [])) [] =
     (Returned (Single (Rows [[(''id'', JNum 1)], [(''id'', JNum 2)]])), connectedState (\<lambda>a. []),
      [ReqExec 7 Query ''SELECT * FROM t'' []])"
    by (simp add: exec_defs run_simps example_defs fun_upd_idem_iff)
  have e: "run (answering (Rows [[(''id'', JNum 1)]]))
       (execute 0 ''SELECT * FROM t WHERE id = ?'' (JNum 1) noOptions) (connectedState (\<lambda>a. [])) [] =
     (Returned (Single (Rows [[(''id'', JNum 1)]])), connectedState (\<lambda>a. []),
      [ReqExec 7 Execute ''SELECT * FROM t WHERE id = ?'' [JNum 1]])"
    by (simp add: exec_defs run_simps example_defs fun_upd_idem_iff)
  from q e queryOne_rows [of "answering (Rows [[(''id'', JNum 1)], [(''id'', JNum 2)]])" 0
      "''SELECT * FROM t''" JUndefined "connectedState (\<lambda>a. [])" "[]"
      "[[(''id'', JNum 1)], [(''id'', JNum 2)]]" "connectedState (\<lambda>a. [])"
      "[ReqExec 7 Query ''SELECT * FROM t'' []]"]
    queryOne_rows [of "answering (Rows [[(''id'', JNum 1)]])" 0
      "''SELECT * FROM t WHERE id = ?''" "JNum 1" "connectedState (\<lambda>a. [])" "[]"
      "[[(''id'', JNum 1)]]" "connectedState (\<lambda>a. [])"
      "[ReqExec 7 Execute ''SELECT * FROM t WHERE id = ?'' [JNum 1]]"]
  show ?thesis by simp
qed

section \<open>Template expansion\<close>

text \<open>
  C2, as the specification has it: for the statement
  \<open>SELECT * FROM t WHERE id = ? OR {(id > ? AND a < ?)}...\<close> and the parameters
  \<open>[0, [1, 2, 3, 4]]\<close> the SQL that is sent is equivalent to
  \<open>... OR (id>? AND a<?) OR (id>? AND a<?)\<close>. In that statement nothing stands between
  the closing brace and the dots, so the separator is empty and the two groups are sent
  one right after the other, without \<open>OR\<close>: the texts differ even without their blanks.
\<close>

theorem expansion_without_separator_counterexample:
  "statements (snd (snd (run (answering (Rows []))
      (execute 0 ''SELECT * FROM t WHERE id = ? OR {(id > ? AND a < ?)}...'' (JArr 1) noOptions)
      (connectedState (heapOf [(1, [JNum 0, JArr 2]), (2, [JNum 1, JNum 2, JNum 3, JNum 4])]))
      []))) =
     [(Execute, ''SELECT * FROM t WHERE id = ? OR (id > ? AND a < ?)(id > ? AND a < ?)'',
       [JNum 0, JNum 1, JNum 2, JNum 3, JNum 4])] \<and>
   squeeze ''SELECT * FROM t WHERE id = ? OR (id > ? AND a < ?)(id > ? AND a < ?)'' \<noteq>
   squeeze ''SELECT * FROM t WHERE id = ? OR (id>? AND a<?) OR (id>? AND a<?)''"
  by (simp add: exec_defs run_simps example_defs string_defs)

text \<open>
  C2, amended: with the separator written in the template, that is for the statement
  \<open>SELECT * FROM t WHERE id = ? OR {(id > ? AND a < ?)} OR ...\<close>, the parameters
  \<open>[0, [1, 2, 3, 4]]\<close> give one statement
  \<open>SELECT * FROM t WHERE id = ? OR (id > ? AND a < ?) OR (id > ? AND a < ?)\<close> with the
  parameters \<open>[0, 1, 2, 3, 4]\<close>, and the nested form \<open>[0, [[1, 2], [3, 4]]]\<close> gives the
  same statement with the same parameters.
\<close>

theorem expansion_flat_and_nested:
  "run (answering (Rows []))
      (execute 0 ''SELECT * FROM t WHERE id = ? OR {(id > ? AND a < ?)} OR ...'' (JArr 1) noOptions)
      (connectedState (heapOf [(1, [JNum 0, JArr 2]), (2, [JNum 1, JNum 2, JNum 3, JNum 4])]))
      [] =
     (Returned (Single (Rows [])),
      connectedState (heapOf [(1, [JNum 0, JArr 2]), (2, [JNum 1, JNum 2, JNum 3, JNum 4])]),
      [ReqExec 7 Execute ''SELECT * FROM t WHERE id = ? OR (id > ? AND a < ?) OR (id > ? AND a < ?)''
         [JNum 0, JNum 1, JNum 2, JNum 3, JNum 4]]) \<and>
   run (answering (Rows []))
      (execute 0 ''SELECT * FROM t WHERE id = ? OR {(id > ? AND a < ?)} OR ...'' (JArr 1) noOptions)
      (connectedState (heapOf [(1, [JNum 0, JArr 2]), (2, [JArr 3, JArr 4]),
         (3, [JNum 1, JNum 2]), (4, [JNum 3, JNum 4])]))
      [] =
     (Returned (Single (Rows [])),
      connectedState (heapOf [(1, [JNum 0, JArr 2]), (2, [JArr 3, JArr 4]),
         (3, [JNum 1, JNum 2]), (4, [JNum 3, JNum 4])]),
      [ReqExec 7 Execute ''SELECT * FROM t WHERE id = ? OR (id > ? AND a < ?) OR (id > ? AND a < ?)''
         [JNum 0, JNum 1, JNum 2, JNum 3, JNum 4]])"
  by (simp add: exec_defs run_simps example_defs string_defs fun_upd_idem_iff)

section \<open>The number of groups\<close>

text \<open>
  C9: a call that passes the two checks of \<open>_exec\<close> and gets its connection (the handle
  has one, or \<open>_init\<close> returns), with a statement that has a pattern and a batch array
  that is empty, fails with the parameter-count error (enriched with the SQL and the
  summary of the parameters): no statement is sent, so an empty batch never runs as zero
  groups.
\<close>

theorem empty_batch_rejected:
  assumes "\<not> markerSet (currentSql (dbs s h))"
    and "beginT (dbs s h) \<or> \<not> truthy (mustInTrans (options (dbs s h)))"
    and "run d (ensureInit h) s l = (Returned (), si, li)"
    and "findIndex isArray (arrays si p) = Some i"
    and "arrays si p ! i = JArr a"
    and "arrays si a = []"
    and "(case regexp opts of Some re \<Rightarrow> re sql | None \<Rightarrow> matchDefault sql) = Some pattern"
    and "length pattern = 3"
  shows "run d (db_exec h ty sql (JArr p) opts) s l =
           (Thrown (Enriched ParameterCountMismatch sql (ArraySummary (summaryOf (arrays si p)))),
            si\<lparr>dbs := (dbs si)(h := (dbs si h)\<lparr>currentSql := None\<rparr>),
               arrays := capNested (arrays si) (summaryOf (arrays si p))\<rparr>,
            li)"
  using assms
  by (simp add: db_exec_def execMain_def execPattern_def execCatch_def run_simps
        patternNumOf_def Let_def)

text \<open>An \<open>INSERT\<close> with an empty batch array, as the first call on a new handle.\<close>

theorem empty_batch_rejected_witness:
  "run (answering (Rows []))
     (execute 0 ''INSERT INTO t (a, b) VALUES {(?, ?)}, ...'' (JArr 1) noOptions)
     (initialState (heapOf [(1, [JStr ''x'', JArr 2]), (2, [])])) [] =
   (Thrown (Enriched ParameterCountMismatch ''INSERT INTO t (a, b) VALUES {(?, ?)}, ...''
              (ArraySummary [JStr ''x'', JArr 2])),
    (initialState (heapOf [(1, [JStr ''x'', JArr 2]), (2, [])]))
      \<lparr>dbs := (dbs (initialState (heapOf [(1, [JStr ''x'', JArr 2]), (2, [])])))
                (0 := initialDb\<lparr>conn := Some 1\<rparr>),
       dbPools := [JStr ''main'' \<mapsto> 0]\<rparr>,
    [ReqCreatePool [(''host'', JStr ''localhost'')], ReqGetConnection 0])"
  using empty_batch_rejected [where s = "initialState (heapOf [(1, [JStr ''x'', JArr 2]), (2, [])])"
      and h = 0 and p = 1 and i = 1 and a = 2 and opts = noOptions
      and sql = "''INSERT INTO t (a, b) VALUES {(?, ?)}, ...''"
      and pattern = "[''{(?, ?)}, ...'', ''(?, ?)'', '', '']"
      and d = "answering (Rows [])" and ty = Execute and l = "[]"
      and si = "(initialState (heapOf [(1, [JStr ''x'', JArr 2]), (2, [])]))
         \<lparr>dbs := (dbs (initialState (heapOf [(1, [JStr ''x'', JArr 2]), (2, [])])))
                   (0 := initialDb\<lparr>conn := Some 1\<rparr>),
          dbPools := [JStr ''main'' \<mapsto> 0]\<rparr>"
      and li = "[ReqCreatePool [(''host'', JStr ''localhost'')], ReqGetConnection 0]"]
  by (simp add: execute_def noOptions_def example_defs summaryOf_def isLineTerminator_def
        ensureInit_def db_init_def run_simps orThrow_def withConn_def hasOwnPropertySafe_def
        poolOptions_def)

section \<open>Transactions and release\<close>

text \<open>
  \<open>commit\<close> and its cascade never change the connection of a handle. So on a handle
  without connection, \<open>commit(true)\<close> never returns, whatever is bound to the handle: when
  the cascade has returned, \<open>beginTransaction\<close> is called on the connection that is not
  there.
\<close>

lemma forEachT_conn:
  assumes "\<And>x s l r s' l'. x \<in> set xs \<Longrightarrow> run d (f x) s l = (r, s', l') \<Longrightarrow>
             conn (dbs s' g) = conn (dbs s g)"
    and "run d (forEachT xs f) s l = (r, s', l')"
  shows "conn (dbs s' g) = conn (dbs s g)"
  using assms
proof (induction xs arbitrary: s l)
  case Nil
  then show ?case by simp
next
  case (Cons x xs)
  obtain r1 s1 l1 where f: "run d (f x) s l = (r1, s1, l1)" by (cases "run d (f x) s l")
  from Cons.prems(1) [OF _ f] have c1: "conn (dbs s1 g) = conn (dbs s g)" by simp
  show ?case
  proof (cases r1)
    case (Returned u)
    with Cons.prems(2) f have rest: "run d (forEachT xs f) s1 l1 = (r, s', l')"
      by (simp add: run_bindT)
    have "\<And>x s l r s' l'. x \<in> set xs \<Longrightarrow> run d (f x) s l = (r, s', l') \<Longrightarrow>
             conn (dbs s' g) = conn (dbs s g)"
      using Cons.prems(1) by (meson list.set_intros(2))
    from Cons.IH [OF this rest] c1 show ?thesis by simp
  qed (use Cons.prems(2) f c1 in \<open>simp_all add: run_bindT\<close>)
qed

lemma commit_conn:
  "run d (commit n h keepTrans reinit) s l = (r, s', l') \<Longrightarrow> conn (dbs s' g) = conn (dbs s g)"
proof (induction n arbitrary: h s l r s' l')
  case 0
  then show ?case by simp
next
  case (Suc n)
  let ?cascade = "case binds (dbs s h) of None \<Rightarrow> Return ()
                  | Some ds \<Rightarrow> forEachT ds (\<lambda>db. commit n db keepTrans reinit)"
  obtain r1 s1 l1 where c: "run d ?cascade s l = (r1, s1, l1)" by (cases "run d ?cascade s l")
  have c1: "conn (dbs s1 g) = conn (dbs s g)"
  proof (cases "binds (dbs s h)")
    case None
    with c show ?thesis by simp
  next
    case (Some ds)
    with c have "run d (forEachT ds (\<lambda>db. commit n db keepTrans reinit)) s l = (r1, s1, l1)"
      by simp
    from forEachT_conn [OF _ this] Suc.IH show ?thesis by blast
  qed
  from Suc.prems c c1 show ?case
    by (auto simp add: run_simps withConn_def orThrow_def
        split: if_splits outcome.splits option.splits sum.splits)
qed

lemma commit_keep_unconnected:
  assumes "conn (dbs s h) = None"
  shows "fst (run d (commit n h True reinit) s l) \<noteq> Returned ()"
proof (cases n)
  case 0
  then show ?thesis by simp
next
  case (Suc m)
  let ?cascade = "case binds (dbs s h) of None \<Rightarrow> Return ()
                  | Some ds \<Rightarrow> forEachT ds (\<lambda>db. commit m db True reinit)"
  obtain r1 s1 l1 where c: "run d ?cascade s l = (r1, s1, l1)" by (cases "run d ?cascade s l")
  have "conn (dbs s1 h) = conn (dbs s h)"
  proof (cases "binds (dbs s h)")
    case None
    with c show ?thesis by simp
  next
    case (Some ds)
    with c have "run d (forEachT ds (\<lambda>db. commit m db True reinit)) s l = (r1, s1, l1)"
      by simp
    from forEachT_conn [OF _ this] commit_conn show ?thesis by blast
  qed
  with assms have "conn (dbs s1 h) = None" by simp
  with c Suc show ?thesis
    by (auto simp add: run_simps withConn_def split: outcome.splits)
qed

text \<open>
  C10: on a handle that has no connection, \<open>commit(true)\<close> does not succeed. When the
  handle has no statement in flight and no bound siblings, it fails with the error of
  calling \<open>beginTransaction\<close> on the connection that is not there and leaves the state as
  it is, whereas \<open>commit(false)\<close> on the same handle succeeds, calls nothing and only
  clears the transacting flag.
\<close>

theorem commit_unconnected:
  assumes "conn (dbs s h) = None"
  shows "fst (run d (commit depth h True reinit) s l) \<noteq> Returned () \<and>
         (\<not> markerSet (currentSql (dbs s h)) \<and>
          (binds (dbs s h) = None \<or> binds (dbs s h) = Some []) \<longrightarrow>
            run d (commit (Suc n) h True reinit) s l = (Thrown TypeError, s, l) \<and>
            run d (commit (Suc n) h False reinit) s l =
              (Returned (), s\<lparr>dbs := (dbs s)(h := (dbs s h)\<lparr>beginT := False\<rparr>)\<rparr>, l))"
  using assms commit_keep_unconnected [OF assms, of d depth reinit l]
  by (auto simp add: run_simps withConn_def)

text \<open>A handle as the constructor made it.\<close>

theorem commit_unconnected_witness:
  "fst (run (answering (Rows [])) (commit 1 0 True True) (initialState (\<lambda>a. [])) []) \<noteq>
     Returned () \<and>
   run (answering (Rows [])) (commit 1 0 True True) (initialState (\<lambda>a. [])) [] =
     (Thrown TypeError, initialState (\<lambda>a. []), []) \<and>
   run (answering (Rows [])) (commit 1 0 False True) (initialState (\<lambda>a. [])) [] =
     (Returned (), initialState (\<lambda>a. []), [])"
  using commit_unconnected [where s = "initialState (\<lambda>a. [])" and h = 0 and n = 0
      and depth = 1 and d = "answering (Rows [])" and reinit = True and l = "[]"]
  by (simp add: example_defs fun_upd_idem_iff)

text \<open>\<open>rollback\<close> on a handle without bound siblings.\<close>

lemma run_rollback_alone:
  assumes "binds (dbs s h) = None \<or> binds (dbs s h) = Some []"
  shows "run d (rollback (Suc n) h) s l =
           (case conn (dbs s h) of
              None \<Rightarrow> (Returned (), s\<lparr>dbs := (dbs s)(h := (dbs s h)\<lparr>beginT := False\<rparr>)\<rparr>, l)
            | Some c \<Rightarrow>
                if beginT (dbs s h) then
                  (case command d l Rollback c of
                     Inl e \<Rightarrow> (Thrown e, s, l @ [ReqCommand Rollback c])
                   | Inr u \<Rightarrow>
                       (Returned (), s\<lparr>dbs := (dbs s)(h := (dbs s h)\<lparr>beginT := False\<rparr>)\<rparr>,
                        l @ [ReqCommand Rollback c]))
                else (Returned (), s\<lparr>dbs := (dbs s)(h := (dbs s h)\<lparr>beginT := False\<rparr>)\<rparr>, l))"
  using assms
  by (auto simp add: run_simps withConn_def orThrow_def split: option.splits sum.splits)

text \<open>
  A rollback only closes transactions, and it leaves the bindings as they are. So when
  \<open>rollback\<close> has returned, a second one on the same handle, in that state or in a later
  one of this kind, finds no transaction, on the handle and all along the cascade: it
  calls nothing and changes nothing.
\<close>

lemma settled_refl: "settled s s"
  by (simp add: settled_def)

lemma settled_trans: "settled s t \<Longrightarrow> settled t u \<Longrightarrow> settled s u"
  by (simp add: settled_def)

lemma forEachT_settled:
  assumes "\<And>x s l r s' l'. run d (f x) s l = (r, s', l') \<Longrightarrow> settled s s'"
    and "run d (forEachT xs f) s l = (r, s', l')"
  shows "settled s s'"
  using assms(2)
proof (induction xs arbitrary: s l)
  case Nil
  then show ?case by (simp add: settled_refl)
next
  case (Cons x xs)
  obtain r1 s1 l1 where f: "run d (f x) s l = (r1, s1, l1)" by (cases "run d (f x) s l")
  from assms(1) [OF f] have c1: "settled s s1" .
  show ?case
  proof (cases r1)
    case (Returned u)
    with Cons.prems f have rest: "run d (forEachT xs f) s1 l1 = (r, s', l')"
      by (simp add: run_bindT)
    from Cons.IH [OF rest] c1 show ?thesis by (rule settled_trans [rotated])
  qed (use Cons.prems f c1 in \<open>simp_all add: run_bindT\<close>)
qed

lemma rollback_settled:
  "run d (rollback n h) s l = (r, s', l') \<Longrightarrow> settled s s'"
proof (induction n arbitrary: h s l r s' l')
  case 0
  then show ?case by (simp add: settled_refl)
next
  case (Suc n)
  let ?cascade = "case binds (dbs s h) of None \<Rightarrow> Return () | Some ds \<Rightarrow> forEachT ds (rollback n)"
  obtain r1 s1 l1 where c: "run d ?cascade s l = (r1, s1, l1)" by (cases "run d ?cascade s l")
  have c1: "settled s s1"
  proof (cases "binds (dbs s h)")
    case None
    with c show ?thesis by (simp add: settled_refl)
  next
    case (Some ds)
    with c have "run d (forEachT ds (rollback n)) s l = (r1, s1, l1)" by simp
    from forEachT_settled [OF _ this] Suc.IH show ?thesis by blast
  qed
  from Suc.prems c have "s' = s1 \<or> s' = s1\<lparr>dbs := (dbs s1)(h := (dbs s1 h)\<lparr>beginT := False\<rparr>)\<rparr>"
    by (auto simp add: run_simps withConn_def orThrow_def
        split: if_splits outcome.splits option.splits sum.splits)
  then have "settled s1 s'" by (auto simp add: settled_def split: if_splits)
  with c1 show ?case by (rule settled_trans)
qed

lemma forEachT_rollback_noop:
  assumes ih: "\<And>h s l s' l' t k. run d (rollback n h) s l = (Returned (), s', l') \<Longrightarrow>
                 settled s' t \<Longrightarrow> run d (rollback n h) t k = (Returned (), t, k)"
    and "run d (forEachT xs (rollback n)) s l = (Returned (), s', l')"
    and "settled s' t"
  shows "run d (forEachT xs (rollback n)) t k = (Returned (), t, k)"
  using assms(2,3)
proof (induction xs arbitrary: s l)
  case Nil
  then show ?case by simp
next
  case (Cons x xs)
  obtain r1 s1 l1 where f: "run d (rollback n x) s l = (r1, s1, l1)"
    by (cases "run d (rollback n x) s l")
  with Cons.prems(1) have r1: "r1 = Returned ()"
    by (cases r1) (simp_all add: run_bindT)
  with Cons.prems(1) f have rest: "run d (forEachT xs (rollback n)) s1 l1 = (Returned (), s', l')"
    by (simp add: run_bindT)
  from forEachT_settled [OF _ rest] rollback_settled have "settled s1 s'" by blast
  with Cons.prems(2) have "settled s1 t" by (blast intro: settled_trans)
  with ih f r1 have "run d (rollback n x) t k = (Returned (), t, k)" by blast
  with Cons.IH [OF rest Cons.prems(2)] show ?case by (simp add: run_bindT)
qed

lemma rollback_noop:
  "run d (rollback n h) s l = (Returned (), s', l') \<Longrightarrow> settled s' t \<Longrightarrow>
   run d (rollback n h) t k = (Returned (), t, k)"
proof (induction n arbitrary: h s l s' l' t k)
  case 0
  then show ?case by simp
next
  case (Suc n)
  let ?cascade = "\<lambda>s. case binds (dbs s h) of None \<Rightarrow> Return () | Some ds \<Rightarrow> forEachT ds (rollback n)"
  obtain r1 s1 l1 where c: "run d (?cascade s) s l = (r1, s1, l1)"
    by (cases "run d (?cascade s) s l")
  with Suc.prems(1) have r1: "r1 = Returned ()"
    by (cases r1) (simp_all add: run_bindT)
  from Suc.prems(1) c r1
  have s': "s' = s1\<lparr>dbs := (dbs s1)(h := (dbs s1 h)\<lparr>beginT := False\<rparr>)\<rparr>"
    by (auto simp add: run_simps withConn_def orThrow_def
        split: if_splits outcome.splits option.splits sum.splits)
  then have s1s': "settled s1 s'" by (auto simp add: settled_def split: if_splits)
  with Suc.prems(2) have s1t: "settled s1 t" by (blast intro: settled_trans)
  from rollback_settled [OF Suc.prems(1)] Suc.prems(2) have st: "settled s t"
    by (blast intro: settled_trans)
  then have b: "binds (dbs t h) = binds (dbs s h)" by (simp add: settled_def)
  have cascade: "run d (?cascade t) t k = (Returned (), t, k)"
  proof (cases "binds (dbs s h)")
    case None
    with b show ?thesis by simp
  next
    case (Some ds)
    with c r1 have "run d (forEachT ds (rollback n)) s l = (Returned (), s1, l1)" by simp
    from forEachT_rollback_noop [OF Suc.IH this s1t] Some b show ?thesis by simp
  qed
  from s' Suc.prems(2) have nb: "\<not> beginT (dbs t h)" by (simp add: settled_def)
  then have "(dbs t)(h := (dbs t h)\<lparr>beginT := False\<rparr>) = dbs t"
    by (simp add: fun_upd_idem_iff)
  with cascade nb show ?case by (simp add: run_simps)
qed

lemma rollback_clears:
  "run d (rollback n h) s l = (Returned (), s', l') \<Longrightarrow> \<not> beginT (dbs s' h)"
proof (cases n)
  case 0
  assume "run d (rollback n h) s l = (Returned (), s', l')"
  with 0 show ?thesis by simp
next
  case (Suc m)
  assume "run d (rollback n h) s l = (Returned (), s', l')"
  with Suc show ?thesis
    by (auto simp add: run_simps withConn_def orThrow_def
        split: if_splits outcome.splits option.splits sum.splits prod.splits)
qed

lemma release_idempotent:
  assumes "run d (release n h) s l = (Returned (), s', l')"
  shows "conn (dbs s' h) = None \<and> \<not> beginT (dbs s' h) \<and>
         run d (release n h) s' l' = (Returned (), s', l')"
proof -
  obtain r1 s1 l1 where rb: "run d (rollback n h) s l = (r1, s1, l1)"
    by (cases "run d (rollback n h) s l")
  with assms have r1: "r1 = Returned ()"
    by (cases r1) (simp_all add: release_def run_bindT)
  from rollback_clears rb r1 have nb: "\<not> beginT (dbs s1 h)" by blast
  from assms rb r1
  have s': "s' = s1 \<and> conn (dbs s1 h) = None \<or>
            s' = s1\<lparr>dbs := (dbs s1)(h := (dbs s1 h)\<lparr>conn := None\<rparr>)\<rparr>"
    by (auto simp add: release_def run_simps orThrow_def split: option.splits sum.splits)
  then have st: "settled s1 s'" by (auto simp add: settled_def split: if_splits)
  from s' nb have c: "conn (dbs s' h) = None" and b: "\<not> beginT (dbs s' h)" by auto
  from rollback_noop [OF _ st, of d n h s l l1 l'] rb r1
  have "run d (rollback n h) s' l' = (Returned (), s', l')" by simp
  with c have "run d (release n h) s' l' = (Returned (), s', l')"
    by (simp add: release_def run_bindT)
  with c b show ?thesis by simp
qed

text \<open>
  What the cascade of \<open>rollback\<close> asks of the driver, whatever is bound to the handle and
  however it ends.
\<close>

lemma rolledBack_refl: "rolledBack s l s l"
  by (auto simp add: rolledBack_def settled_refl intro: exI [of _ "[]"])

lemma rolledBack_trans:
  assumes "rolledBack s l t k" and "rolledBack t k u m"
  shows "rolledBack s l u m"
proof -
  from assms(1) obtain cs where st: "settled s t" "\<forall>g. conn (dbs t g) = conn (dbs s g)"
    "k = l @ map (ReqCommand Rollback) cs"
    "\<forall>k \<in> set cs. \<exists>g. beginT (dbs s g) \<and> conn (dbs s g) = Some k"
    "\<forall>g c. beginT (dbs s g) \<and> \<not> beginT (dbs t g) \<and> conn (dbs s g) = Some c \<longrightarrow> c \<in> set cs"
    unfolding rolledBack_def by blast
  from assms(2) obtain ds where tu: "settled t u" "\<forall>g. conn (dbs u g) = conn (dbs t g)"
    "m = k @ map (ReqCommand Rollback) ds"
    "\<forall>k \<in> set ds. \<exists>g. beginT (dbs t g) \<and> conn (dbs t g) = Some k"
    "\<forall>g c. beginT (dbs t g) \<and> \<not> beginT (dbs u g) \<and> conn (dbs t g) = Some c \<longrightarrow> c \<in> set ds"
    unfolding rolledBack_def by blast
  from st(1) have keep: "\<forall>g. beginT (dbs t g) \<longrightarrow> beginT (dbs s g)"
    by (auto simp add: settled_def)
  have "m = l @ map (ReqCommand Rollback) (cs @ ds)" using st(3) tu(3) by simp
  moreover have "\<forall>g c. beginT (dbs s g) \<and> \<not> beginT (dbs u g) \<and> conn (dbs s g) = Some c
                  \<longrightarrow> c \<in> set (cs @ ds)"
    using st(2,5) tu(5) by (metis Un_iff set_append)
  moreover have "\<forall>k \<in> set (cs @ ds). \<exists>g. beginT (dbs s g) \<and> conn (dbs s g) = Some k"
  proof
    fix c assume "c \<in> set (cs @ ds)"
    then consider "c \<in> set cs" | "c \<in> set ds" by auto
    then show "\<exists>g. beginT (dbs s g) \<and> conn (dbs s g) = Some c"
    proof cases
      case 1
      with st(4) show ?thesis by blast
    next
      case 2
      with tu(4) obtain g where "beginT (dbs t g)" "conn (dbs t g) = Some c" by blast
      with keep st(2) have "beginT (dbs s g) \<and> conn (dbs s g) = Some c" by simp
      then show ?thesis by blast
    qed
  qed
  moreover have "settled s u" using st(1) tu(1) by (rule settled_trans)
  moreover have "\<forall>g. conn (dbs u g) = conn (dbs s g)" using st(2) tu(2) by simp
  ultimately show ?thesis unfolding rolledBack_def by blast
qed

lemma forEachT_rolledBack:
  assumes "\<And>x s l r s' l'. run d (f x) s l = (r, s', l') \<Longrightarrow> rolledBack s l s' l'"
    and "run d (forEachT xs f) s l = (r, s', l')"
  shows "rolledBack s l s' l'"
  using assms(2)
proof (induction xs arbitrary: s l)
  case Nil
  then show ?case by (simp add: rolledBack_refl)
next
  case (Cons x xs)
  obtain r1 s1 l1 where f: "run d (f x) s l = (r1, s1, l1)" by (cases "run d (f x) s l")
  from assms(1) [OF f] have c1: "rolledBack s l s1 l1" .
  show ?case
  proof (cases r1)
    case (Returned u)
    with Cons.prems f have rest: "run d (forEachT xs f) s1 l1 = (r, s', l')"
      by (simp add: run_bindT)
    from c1 Cons.IH [OF rest] show ?thesis by (rule rolledBack_trans)
  qed (use Cons.prems f c1 in \<open>simp_all add: run_bindT\<close>)
qed

lemma cascade_siblings:
  "(case binds (dbs s h) of None \<Rightarrow> Return () | Some ds \<Rightarrow> forEachT ds f) =
   forEachT (siblings s h) f"
  by (simp add: siblings_def split: option.splits)

lemma rollback_rolledBack:
  "run d (rollback n h) s l = (r, s', l') \<Longrightarrow> rolledBack s l s' l'"
proof (induction n arbitrary: h s l r s' l')
  case 0
  then show ?case by (simp add: rolledBack_refl)
next
  case (Suc n)
  obtain r1 s1 l1 where c: "run d (forEachT (siblings s h) (rollback n)) s l = (r1, s1, l1)"
    by (cases "run d (forEachT (siblings s h) (rollback n)) s l")
  from forEachT_rolledBack [OF _ c] Suc.IH have c1: "rolledBack s l s1 l1" by blast
  have own: "rolledBack s1 l1 s' l'"
  proof (cases r1)
    case (Returned u)
    show ?thesis
    proof (cases "beginT (dbs s1 h) \<and> conn (dbs s1 h) \<noteq> None")
      case True
      then obtain k where k: "conn (dbs s1 h) = Some k" by auto
      with True Suc.prems c Returned
      have "l' = l1 @ map (ReqCommand Rollback) [k] \<and>
            (s' = s1 \<or> s' = s1\<lparr>dbs := (dbs s1)(h := (dbs s1 h)\<lparr>beginT := False\<rparr>)\<rparr>)"
        by (auto simp add: run_simps cascade_siblings withConn_def orThrow_def split: sum.splits)
      with k True show ?thesis
        unfolding rolledBack_def settled_def
        by (auto split: if_splits intro!: exI [of _ "[k]"] exI [of _ h])
    next
      case False
      with Suc.prems c Returned
      have "l' = l1 \<and> s' = s1\<lparr>dbs := (dbs s1)(h := (dbs s1 h)\<lparr>beginT := False\<rparr>)\<rparr>"
        by (auto simp add: run_simps cascade_siblings)
      with False show ?thesis
        unfolding rolledBack_def settled_def
        by (auto split: if_splits intro!: exI [of _ "[]"])
    qed
  next
    case (Thrown e)
    with Suc.prems c have "l' = l1 \<and> s' = s1"
      by (auto simp add: run_simps cascade_siblings)
    then show ?thesis by (simp add: rolledBack_refl)
  next
    case NoResult
    with Suc.prems c have "l' = l1 \<and> s' = s1"
      by (auto simp add: run_simps cascade_siblings)
    then show ?thesis by (simp add: rolledBack_refl)
  qed
  from c1 own show ?case by (rule rolledBack_trans)
qed



text \<open>
  With a driver whose commands do not fail, a cascade that is deep enough for the handles
  bound to the handle returns.
\<close>

lemma boundWithin_settled:
  "settled s t \<Longrightarrow> boundWithin n t g = boundWithin n s g"
  by (induction n arbitrary: g) (simp_all add: siblings_def settled_def)

lemma forEachT_rollback_returns:
  assumes "\<And>h s l. boundWithin n s h \<Longrightarrow> \<exists>s' l'. run d (rollback n h) s l = (Returned (), s', l')"
    and "\<forall>g \<in> set xs. boundWithin n s g"
  shows "\<exists>s' l'. run d (forEachT xs (rollback n)) s l = (Returned (), s', l')"
  using assms(2)
proof (induction xs arbitrary: s l)
  case Nil
  then show ?case by simp
next
  case (Cons x xs)
  from Cons.prems have "boundWithin n s x" by simp
  from assms(1) [OF this] obtain s1 l1 where f: "run d (rollback n x) s l = (Returned (), s1, l1)"
    by blast
  from rollback_rolledBack [OF f] have "settled s s1" by (simp add: rolledBack_def)
  with Cons.prems have "\<forall>g \<in> set xs. boundWithin n s1 g" by (simp add: boundWithin_settled)
  from Cons.IH [OF this] obtain s' l' where "run d (forEachT xs (rollback n)) s1 l1 = (Returned (), s', l')"
    by blast
  with f show ?case by (simp add: run_bindT)
qed

lemma rollback_returns:
  assumes "\<forall>l k c. command d l k c = Inr ()"
  shows "boundWithin n s h \<Longrightarrow> \<exists>s' l'. run d (rollback n h) s l = (Returned (), s', l')"
proof (induction n arbitrary: h s l)
  case 0
  then show ?case by simp
next
  case (Suc n)
  from Suc.prems have "\<forall>g \<in> set (siblings s h). boundWithin n s g" by simp
  from forEachT_rollback_returns [OF Suc.IH this]
  obtain sc lc where "run d (forEachT (siblings s h) (rollback n)) s l = (Returned (), sc, lc)"
    by blast
  with assms show ?case
    by (auto simp add: run_simps cascade_siblings withConn_def orThrow_def)
qed

lemma release_returns:
  assumes "\<forall>l k c. command d l k c = Inr ()" and "boundWithin n s h"
  shows "\<exists>s' l'. run d (release n h) s l = (Returned (), s', l')"
proof -
  from rollback_returns [OF assms] obtain s1 l1
    where "run d (rollback n h) s l = (Returned (), s1, l1)" by blast
  with assms(1) show ?thesis
    by (auto simp add: release_def run_simps orThrow_def split: option.splits)
qed

lemma release_log:
  assumes "run d (release n h) s l = (Returned (), s', l')"
  shows "\<exists>cs. l' = l @ map (ReqCommand Rollback) cs @
                  (case conn (dbs s h) of None \<Rightarrow> [] | Some c \<Rightarrow> [ReqCommand Release c]) \<and>
              (\<forall>k \<in> set cs. \<exists>g. beginT (dbs s g) \<and> conn (dbs s g) = Some k) \<and>
              (\<forall>c. beginT (dbs s h) \<and> conn (dbs s h) = Some c \<longrightarrow> c \<in> set cs)"
proof -
  obtain r1 s1 l1 where rb: "run d (rollback n h) s l = (r1, s1, l1)"
    by (cases "run d (rollback n h) s l")
  with assms have r1: "r1 = Returned ()"
    by (cases r1) (simp_all add: release_def run_bindT)
  from rollback_clears rb r1 have nb: "\<not> beginT (dbs s1 h)" by blast
  from rollback_rolledBack [OF rb] obtain cs where
    cn: "\<forall>g. conn (dbs s1 g) = conn (dbs s g)" and l1: "l1 = l @ map (ReqCommand Rollback) cs"
    and only: "\<forall>k \<in> set cs. \<exists>g. beginT (dbs s g) \<and> conn (dbs s g) = Some k"
    and sent: "\<forall>g c. beginT (dbs s g) \<and> \<not> beginT (dbs s1 g) \<and> conn (dbs s g) = Some c \<longrightarrow> c \<in> set cs"
    unfolding rolledBack_def by blast
  from cn have ch: "conn (dbs s1 h) = conn (dbs s h)" by simp
  from assms rb r1 ch
  have "l' = l1 @ (case conn (dbs s h) of None \<Rightarrow> [] | Some c \<Rightarrow> [ReqCommand Release c])"
    by (auto simp add: release_def run_simps orThrow_def split: option.splits sum.splits)
  with l1 have "l' = l @ map (ReqCommand Rollback) cs @
                  (case conn (dbs s h) of None \<Rightarrow> [] | Some c \<Rightarrow> [ReqCommand Release c])"
    by simp
  moreover from sent nb have "\<forall>c. beginT (dbs s h) \<and> conn (dbs s h) = Some c \<longrightarrow> c \<in> set cs"
    by blast
  ultimately show ?thesis using only by blast
qed

lemma release_cascade:
  "run d (release (Suc n) h) s l =
     (case run d (forEachT (siblings s h) (rollback n)) s l of
        (Returned u, sc, lc) \<Rightarrow>
          (case conn (dbs sc h) of
             None \<Rightarrow> (Returned (), sc\<lparr>dbs := (dbs sc)(h := (dbs sc h)\<lparr>beginT := False\<rparr>)\<rparr>, lc)
           | Some c \<Rightarrow>
               if beginT (dbs sc h) then
                 (case command d lc Rollback c of
                    Inl e \<Rightarrow> (Thrown e, sc, lc @ [ReqCommand Rollback c])
                  | Inr u \<Rightarrow>
                      (case command d (lc @ [ReqCommand Rollback c]) Release c of
                         Inl e \<Rightarrow>
                           (Thrown e, sc\<lparr>dbs := (dbs sc)(h := (dbs sc h)\<lparr>beginT := False\<rparr>)\<rparr>,
                            lc @ [ReqCommand Rollback c, ReqCommand Release c])
                       | Inr u \<Rightarrow>
                           (Returned (),
                            sc\<lparr>dbs := (dbs sc)(h := (dbs sc h)\<lparr>beginT := False, conn := None\<rparr>)\<rparr>,
                            lc @ [ReqCommand Rollback c, ReqCommand Release c])))
               else
                 (case command d lc Release c of
                    Inl e \<Rightarrow>
                      (Thrown e, sc\<lparr>dbs := (dbs sc)(h := (dbs sc h)\<lparr>beginT := False\<rparr>)\<rparr>,
                       lc @ [ReqCommand Release c])
                  | Inr u \<Rightarrow>
                      (Returned (),
                       sc\<lparr>dbs := (dbs sc)(h := (dbs sc h)\<lparr>beginT := False, conn := None\<rparr>)\<rparr>,
                       lc @ [ReqCommand Release c])))
      | (Thrown e, sc, lc) \<Rightarrow> (Thrown e, sc, lc)
      | (NoResult, sc, lc) \<Rightarrow> (NoResult, sc, lc))"
proof -
  obtain r1 sc lc where c: "run d (forEachT (siblings s h) (rollback n)) s l = (r1, sc, lc)"
    by (cases "run d (forEachT (siblings s h) (rollback n)) s l")
  show ?thesis
    unfolding release_def rollback.simps run.simps run_bindT cascade_siblings c
    by (cases r1)
      (simp_all add: run_simps withConn_def orThrow_def split: option.splits sum.splits)
qed


text \<open>
  C5: \<open>release\<close> first rolls back, then releases the connection and forgets it. On a
  handle without bound siblings this is: the rollback of the open transaction, if there
  is one on a connection, then the release of the connection; an error of the driver ends
  it at the command that failed. On a handle with bound siblings the same commands follow
  the cascade of \<open>rollback\<close> to the siblings, in the state and after the log that the
  cascade leaves; a cascade that throws or does not end is the end of \<open>release\<close>. On
  every handle, when \<open>release\<close> has returned, the driver was asked to roll back, only on
  connections of handles whose transaction was open, among them the connection of the
  handle if its transaction was open, and then to release the connection of the handle,
  if it had one; the handle has no connection and no transaction, and a second \<open>release\<close>
  returns without a call of the driver and without a change of the state. With a driver
  whose commands do not fail, \<open>release\<close> returns whenever the cascade is deep enough for
  the handles bound to the handle.
\<close>

theorem release_rolls_back_first:
  "(binds (dbs s h) = None \<or> binds (dbs s h) = Some [] \<longrightarrow>
      run d (release (Suc n) h) s l =
           (case conn (dbs s h) of
              None \<Rightarrow> (Returned (), s\<lparr>dbs := (dbs s)(h := (dbs s h)\<lparr>beginT := False\<rparr>)\<rparr>, l)
            | Some c \<Rightarrow>
                if beginT (dbs s h) then
                  (case command d l Rollback c of
                     Inl e \<Rightarrow> (Thrown e, s, l @ [ReqCommand Rollback c])
                   | Inr u \<Rightarrow>
                       (case command d (l @ [ReqCommand Rollback c]) Release c of
                          Inl e \<Rightarrow>
                            (Thrown e, s\<lparr>dbs := (dbs s)(h := (dbs s h)\<lparr>beginT := False\<rparr>)\<rparr>,
                             l @ [ReqCommand Rollback c, ReqCommand Release c])
                        | Inr u \<Rightarrow>
                            (Returned (),
                             s\<lparr>dbs := (dbs s)(h := (dbs s h)\<lparr>beginT := False, conn := None\<rparr>)\<rparr>,
                             l @ [ReqCommand Rollback c, ReqCommand Release c])))
                else
                  (case command d l Release c of
                     Inl e \<Rightarrow>
                       (Thrown e, s\<lparr>dbs := (dbs s)(h := (dbs s h)\<lparr>beginT := False\<rparr>)\<rparr>,
                        l @ [ReqCommand Release c])
                   | Inr u \<Rightarrow>
                       (Returned (),
                        s\<lparr>dbs := (dbs s)(h := (dbs s h)\<lparr>beginT := False, conn := None\<rparr>)\<rparr>,
                        l @ [ReqCommand Release c])))) \<and>
   run d (release (Suc n) h) s l =
        (case run d (forEachT (siblings s h) (rollback n)) s l of
           (Returned u, sc, lc) \<Rightarrow>
             (case conn (dbs sc h) of
                None \<Rightarrow> (Returned (), sc\<lparr>dbs := (dbs sc)(h := (dbs sc h)\<lparr>beginT := False\<rparr>)\<rparr>, lc)
              | Some c \<Rightarrow>
                  if beginT (dbs sc h) then
                    (case command d lc Rollback c of
                       Inl e \<Rightarrow> (Thrown e, sc, lc @ [ReqCommand Rollback c])
                     | Inr u \<Rightarrow>
                         (case command d (lc @ [ReqCommand Rollback c]) Release c of
                            Inl e \<Rightarrow>
                              (Thrown e, sc\<lparr>dbs := (dbs sc)(h := (dbs sc h)\<lparr>beginT := False\<rparr>)\<rparr>,
                               lc @ [ReqCommand Rollback c, ReqCommand Release c])
                          | Inr u \<Rightarrow>
                              (Returned (),
                               sc\<lparr>dbs := (dbs sc)(h := (dbs sc h)\<lparr>beginT := False, conn := None\<rparr>)\<rparr>,
                               lc @ [ReqCommand Rollback c, ReqCommand Release c])))
                  else
                    (case command d lc Release c of
                       Inl e \<Rightarrow>
                         (Thrown e, sc\<lparr>dbs := (dbs sc)(h := (dbs sc h)\<lparr>beginT := False\<rparr>)\<rparr>,
                          lc @ [ReqCommand Release c])
                     | Inr u \<Rightarrow>
                         (Returned (),
                          sc\<lparr>dbs := (dbs sc)(h := (dbs sc h)\<lparr>beginT := False, conn := None\<rparr>)\<rparr>,
                          lc @ [ReqCommand Release c])))
         | (Thrown e, sc, lc) \<Rightarrow> (Thrown e, sc, lc)
         | (NoResult, sc, lc) \<Rightarrow> (NoResult, sc, lc)) \<and>
   (run d (release depth h) s l = (Returned (), s', l') \<longrightarrow>
      (\<exists>cs. l' = l @ map (ReqCommand Rollback) cs @
                 (case conn (dbs s h) of None \<Rightarrow> [] | Some c \<Rightarrow> [ReqCommand Release c]) \<and>
            (\<forall>k \<in> set cs. \<exists>g. beginT (dbs s g) \<and> conn (dbs s g) = Some k) \<and>
            (\<forall>c. beginT (dbs s h) \<and> conn (dbs s h) = Some c \<longrightarrow> c \<in> set cs)) \<and>
      conn (dbs s' h) = None \<and> \<not> beginT (dbs s' h) \<and>
      run d (release depth h) s' l' = (Returned (), s', l')) \<and>
   (boundWithin depth s h \<and> (\<forall>l c k. command d l c k = Inr ()) \<longrightarrow>
      (\<exists>s' l'. run d (release depth h) s l = (Returned (), s', l')))"
proof (intro conjI impI)
  assume alone: "binds (dbs s h) = None \<or> binds (dbs s h) = Some []"
  show "run d (release (Suc n) h) s l =
           (case conn (dbs s h) of
              None \<Rightarrow> (Returned (), s\<lparr>dbs := (dbs s)(h := (dbs s h)\<lparr>beginT := False\<rparr>)\<rparr>, l)
            | Some c \<Rightarrow>
                if beginT (dbs s h) then
                  (case command d l Rollback c of
                     Inl e \<Rightarrow> (Thrown e, s, l @ [ReqCommand Rollback c])
                   | Inr u \<Rightarrow>
                       (case command d (l @ [ReqCommand Rollback c]) Release c of
                          Inl e \<Rightarrow>
                            (Thrown e, s\<lparr>dbs := (dbs s)(h := (dbs s h)\<lparr>beginT := False\<rparr>)\<rparr>,
                             l @ [ReqCommand Rollback c, ReqCommand Release c])
                        | Inr u \<Rightarrow>
                            (Returned (),
                             s\<lparr>dbs := (dbs s)(h := (dbs s h)\<lparr>beginT := False, conn := None\<rparr>)\<rparr>,
                             l @ [ReqCommand Rollback c, ReqCommand Release c])))
                else
                  (case command d l Release c of
                     Inl e \<Rightarrow>
                       (Thrown e, s\<lparr>dbs := (dbs s)(h := (dbs s h)\<lparr>beginT := False\<rparr>)\<rparr>,
                        l @ [ReqCommand Release c])
                   | Inr u \<Rightarrow>
                       (Returned (),
                        s\<lparr>dbs := (dbs s)(h := (dbs s h)\<lparr>beginT := False, conn := None\<rparr>)\<rparr>,
                        l @ [ReqCommand Release c])))"
    unfolding release_def run_bindT run_rollback_alone [OF alone]
    by (simp add: run_simps orThrow_def split: option.splits sum.splits)
next
  show "run d (release (Suc n) h) s l =
          (case run d (forEachT (siblings s h) (rollback n)) s l of
           (Returned u, sc, lc) \<Rightarrow>
             (case conn (dbs sc h) of
                None \<Rightarrow> (Returned (), sc\<lparr>dbs := (dbs sc)(h := (dbs sc h)\<lparr>beginT := False\<rparr>)\<rparr>, lc)
              | Some c \<Rightarrow>
                  if beginT (dbs sc h) then
                    (case command d lc Rollback c of
                       Inl e \<Rightarrow> (Thrown e, sc, lc @ [ReqCommand Rollback c])
                     | Inr u \<Rightarrow>
                         (case command d (lc @ [ReqCommand Rollback c]) Release c of
                            Inl e \<Rightarrow>
                              (Thrown e, sc\<lparr>dbs := (dbs sc)(h := (dbs sc h)\<lparr>beginT := False\<rparr>)\<rparr>,
                               lc @ [ReqCommand Rollback c, ReqCommand Release c])
                          | Inr u \<Rightarrow>
                              (Returned (),
                               sc\<lparr>dbs := (dbs sc)(h := (dbs sc h)\<lparr>beginT := False, conn := None\<rparr>)\<rparr>,
                               lc @ [ReqCommand Rollback c, ReqCommand Release c])))
                  else
                    (case command d lc Release c of
                       Inl e \<Rightarrow>
                         (Thrown e, sc\<lparr>dbs := (dbs sc)(h := (dbs sc h)\<lparr>beginT := False\<rparr>)\<rparr>,
                          lc @ [ReqCommand Release c])
                     | Inr u \<Rightarrow>
                         (Returned (),
                          sc\<lparr>dbs := (dbs sc)(h := (dbs sc h)\<lparr>beginT := False, conn := None\<rparr>)\<rparr>,
                          lc @ [ReqCommand Release c])))
         | (Thrown e, sc, lc) \<Rightarrow> (Thrown e, sc, lc)
         | (NoResult, sc, lc) \<Rightarrow> (NoResult, sc, lc))"
    by (rule release_cascade)
next
  assume "run d (release depth h) s l = (Returned (), s', l')"
  from release_log [OF this]
  show "\<exists>cs. l' = l @ map (ReqCommand Rollback) cs @
                 (case conn (dbs s h) of None \<Rightarrow> [] | Some c \<Rightarrow> [ReqCommand Release c]) \<and>
            (\<forall>k \<in> set cs. \<exists>g. beginT (dbs s g) \<and> conn (dbs s g) = Some k) \<and>
            (\<forall>c. beginT (dbs s h) \<and> conn (dbs s h) = Some c \<longrightarrow> c \<in> set cs)" .
next
  assume "run d (release depth h) s l = (Returned (), s', l')"
  from release_idempotent [OF this]
  show "conn (dbs s' h) = None" and "\<not> beginT (dbs s' h)"
    and "run d (release depth h) s' l' = (Returned (), s', l')"
    by simp_all
next
  assume "boundWithin depth s h \<and> (\<forall>l c k. command d l c k = Inr ())"
  then show "\<exists>s' l'. run d (release depth h) s l = (Returned (), s', l')"
    by (simp add: release_returns)
qed


text \<open>
  A handle with connection \<open>7\<close> and a transaction, released twice; and the same handle
  with handle \<open>1\<close> bound to it, on connection \<open>8\<close> with a transaction: the driver is asked
  to roll back on \<open>8\<close>, to roll back on \<open>7\<close>, and to release \<open>7\<close>.
\<close>

theorem release_rolls_back_first_witness:
  "run (answering (Rows [])) (release 1 0) (transactingState (\<lambda>a. [])) [] =
     (Returned (),
      (transactingState (\<lambda>a. []))\<lparr>dbs := (dbs (transactingState (\<lambda>a. [])))(0 := initialDb)\<rparr>,
      [ReqCommand Rollback 7, ReqCommand Release 7]) \<and>
   run (answering (Rows [])) (release 1 0)
     ((transactingState (\<lambda>a. []))\<lparr>dbs := (dbs (transactingState (\<lambda>a. [])))(0 := initialDb)\<rparr>)
     [ReqCommand Rollback 7, ReqCommand Release 7] =
     (Returned (),
      (transactingState (\<lambda>a. []))\<lparr>dbs := (dbs (transactingState (\<lambda>a. [])))(0 := initialDb)\<rparr>,
      [ReqCommand Rollback 7, ReqCommand Release 7]) \<and>
   siblings (boundState (\<lambda>a. [])) 0 = [1] \<and>
   boundWithin 2 (boundState (\<lambda>a. [])) 0 \<and>
   run (answering (Rows [])) (forEachT [1] (rollback 1)) (boundState (\<lambda>a. [])) [] =
     (Returned (),
      (boundState (\<lambda>a. []))\<lparr>dbs := (dbs (boundState (\<lambda>a. [])))
         (1 := connectedDb\<lparr>conn := Some 8\<rparr>)\<rparr>,
      [ReqCommand Rollback 8]) \<and>
   run (answering (Rows [])) (release 2 0) (boundState (\<lambda>a. [])) [] =
     (Returned (),
      (boundState (\<lambda>a. []))\<lparr>dbs := (dbs (boundState (\<lambda>a. [])))
         (1 := connectedDb\<lparr>conn := Some 8\<rparr>, 0 := initialDb\<lparr>binds := Some [1]\<rparr>)\<rparr>,
      [ReqCommand Rollback 8, ReqCommand Rollback 7, ReqCommand Release 7]) \<and>
   (\<exists>s' l'. run (answering (Rows [])) (release 2 0) (boundState (\<lambda>a. [])) [] =
              (Returned (), s', l'))"
proof -
  note alone = release_rolls_back_first [where s = "transactingState (\<lambda>a. [])" and h = 0
      and n = 0 and depth = 1 and d = "answering (Rows [])" and l = "[]"
      and s' = "(transactingState (\<lambda>a. []))\<lparr>dbs := (dbs (transactingState (\<lambda>a. [])))(0 := initialDb)\<rparr>"
      and l' = "[ReqCommand Rollback 7, ReqCommand Release 7]"]
  note bound = release_rolls_back_first [where s = "boundState (\<lambda>a. [])" and h = 0
      and n = 1 and depth = 2 and d = "answering (Rows [])" and l = "[]"]
  have first: "run (answering (Rows [])) (release 1 0) (transactingState (\<lambda>a. [])) [] =
     (Returned (),
      (transactingState (\<lambda>a. []))\<lparr>dbs := (dbs (transactingState (\<lambda>a. [])))(0 := initialDb)\<rparr>,
      [ReqCommand Rollback 7, ReqCommand Release 7])"
    using conjunct1 [OF alone] by (simp add: example_defs)
  from conjunct1 [OF conjunct2 [OF conjunct2 [OF alone]]] first
  have second: "run (answering (Rows [])) (release 1 0)
     ((transactingState (\<lambda>a. []))\<lparr>dbs := (dbs (transactingState (\<lambda>a. [])))(0 := initialDb)\<rparr>)
     [ReqCommand Rollback 7, ReqCommand Release 7] =
     (Returned (),
      (transactingState (\<lambda>a. []))\<lparr>dbs := (dbs (transactingState (\<lambda>a. [])))(0 := initialDb)\<rparr>,
      [ReqCommand Rollback 7, ReqCommand Release 7])"
    by blast
  have sib: "siblings (boundState (\<lambda>a. [])) 0 = [1]"
    by (simp add: siblings_def boundState_def)
  have depth: "boundWithin 2 (boundState (\<lambda>a. [])) 0"
    by (simp add: numeral_2_eq_2 siblings_def boundState_def example_defs)
  have cascade: "run (answering (Rows [])) (forEachT [1] (rollback 1)) (boundState (\<lambda>a. [])) [] =
     (Returned (),
      (boundState (\<lambda>a. []))\<lparr>dbs := (dbs (boundState (\<lambda>a. [])))
         (1 := connectedDb\<lparr>conn := Some 8\<rparr>)\<rparr>,
      [ReqCommand Rollback 8])"
    by (simp add: run_simps withConn_def orThrow_def example_defs boundState_def)
  have third: "run (answering (Rows [])) (release 2 0) (boundState (\<lambda>a. [])) [] =
     (Returned (),
      (boundState (\<lambda>a. []))\<lparr>dbs := (dbs (boundState (\<lambda>a. [])))
         (1 := connectedDb\<lparr>conn := Some 8\<rparr>, 0 := initialDb\<lparr>binds := Some [1]\<rparr>)\<rparr>,
      [ReqCommand Rollback 8, ReqCommand Rollback 7, ReqCommand Release 7])"
    using conjunct1 [OF conjunct2 [OF bound]] unfolding sib cascade
    by (simp add: example_defs boundState_def numeral_2_eq_2)
  from conjunct2 [OF conjunct2 [OF conjunct2 [OF bound]]] depth
  have returns: "\<exists>s' l'. run (answering (Rows [])) (release 2 0) (boundState (\<lambda>a. [])) [] =
                   (Returned (), s', l')"
    by (simp add: answering_def)
  from first second sib depth cascade third returns show ?thesis by blast
qed

section \<open>The summary of the parameters changes the caller's arrays\<close>

lemma capNested_keeps_capped:
  "length xs = 5 \<Longrightarrow> \<exists>k. hp a = xs @ [itemsNote k] \<Longrightarrow>
   \<exists>k. capNested hp ds a = xs @ [itemsNote k]"
proof (induction ds arbitrary: hp)
  case Nil
  then show ?case by simp
next
  case (Cons d ds)
  show ?case
  proof (cases d)
    case (JArr b)
    show ?thesis
    proof (cases "5 < length (hp b)")
      case True
      let ?hp = "hp(b := take 5 (hp b) @ [itemsNote (length (hp b) - 5)])"
      have "\<exists>k. ?hp a = xs @ [itemsNote k]"
        using Cons.prems by (cases "b = a") auto
      with Cons.IH [of ?hp] Cons.prems(1)
      have "\<exists>k. capNested ?hp ds a = xs @ [itemsNote k]" by blast
      then show ?thesis
        using JArr True by simp
    next
      case False
      with Cons JArr show ?thesis by simp
    qed
  qed (use Cons in simp_all)
qed

lemma capNested_caps:
  "JArr a \<in> set ds \<Longrightarrow> 5 < length (hp a) \<Longrightarrow>
   \<exists>k. capNested hp ds a = take 5 (hp a) @ [itemsNote k]"
proof (induction ds arbitrary: hp)
  case Nil
  then show ?case by simp
next
  case (Cons d ds)
  show ?case
  proof (cases "d = JArr a")
    case True
    let ?hp = "hp(a := take 5 (hp a) @ [itemsNote (length (hp a) - 5)])"
    have "\<exists>k. ?hp a = take 5 (hp a) @ [itemsNote k]"
      by auto
    moreover have "length (take 5 (hp a)) = 5"
      using Cons.prems(2) by simp
    ultimately have "\<exists>k. capNested ?hp ds a = take 5 (hp a) @ [itemsNote k]"
      using capNested_keeps_capped [of "take 5 (hp a)" ?hp a ds] by blast
    then show ?thesis
      using True Cons.prems(2) by simp
  next
    case False
    with Cons.prems have mem: "JArr a \<in> set ds" by simp
    show ?thesis
    proof (cases d)
      case (JArr b)
      with False have ne: "b \<noteq> a" by simp
      show ?thesis
      proof (cases "5 < length (hp b)")
        case True
        let ?hp = "hp(b := take 5 (hp b) @ [itemsNote (length (hp b) - 5)])"
        have eq: "?hp a = hp a" using ne by simp
        have "JArr a \<in> set ds \<Longrightarrow> 5 < length (?hp a) \<Longrightarrow>
              \<exists>k. capNested ?hp ds a = take 5 (?hp a) @ [itemsNote k]"
          by (rule Cons.IH)
        with mem Cons.prems(2)
        have "\<exists>k. capNested ?hp ds a = take 5 (hp a) @ [itemsNote k]"
          unfolding eq by blast
        then show ?thesis using JArr True by simp
      next
        case False
        from Cons.IH [of hp] mem Cons.prems(2) show ?thesis using JArr False by simp
      qed
    qed (use Cons.IH [of hp] mem Cons.prems(2) in simp_all)
  qed
qed

lemma summaryOf_member:
  "i < 50 \<Longrightarrow> i < length ps \<Longrightarrow> ps ! i \<in> set (summaryOf ps)"
  by (auto simp add: summaryOf_def Let_def in_set_conv_nth nth_append intro!: exI [of _ i])

text \<open>Up to its \<open>catch\<close> block, \<open>_exec\<close> leaves the arrays as they are.\<close>

lemma run_execLoop_state:
  "fst (snd (run d (execLoop h ty q a left right dn k i res) s l)) = s"
  by (induction k arbitrary: l i res)
     (simp_all add: withConn_def orThrow_def Let_def split: option.splits sum.splits)

lemma run_execLoop_stateD:
  "run d (execLoop h ty q a left right dn k i res) s l = (r, s', l') \<Longrightarrow> s' = s"
  using run_execLoop_state [of d h ty q a left right dn k i res s l] by simp

lemma run_execPattern_stateD:
  "run d (execPattern h ty sql opts ps i) s l = (r, s', l') \<Longrightarrow> s' = s"
  unfolding execPattern_def
  by (auto simp add: run_bindT withConn_def orThrow_def Let_def
      split: option.splits sum.splits jsval.splits if_splits prod.splits outcome.splits
      dest: run_execLoop_stateD)

lemma arrays_execMain:
  "run d (execMain h ty sql P opts) s l = (r, s', l') \<Longrightarrow> arrays s' = arrays s"
  unfolding execMain_def
  by (auto simp add: run_simps withConn_def orThrow_def Let_def
      split: option.splits sum.splits dest: run_execPattern_stateD)

lemma arrays_db_init:
  "run d (db_init h) s l = (r, s', l') \<Longrightarrow> arrays s' = arrays s"
  unfolding db_init_def
  by (auto simp add: run_simps withConn_def orThrow_def hasOwnPropertySafe_def
      split: option.splits sum.splits if_splits)

lemma run_execCatch_array:
  "run d (execCatch sql P e) s l = (Thrown (Enriched e' q (ArraySummary sm)), s', l') \<Longrightarrow>
   arrays s' = capNested (arrays s) (summaryOf (elems (arrays s) (normalize P)))"
  unfolding execCatch_def
  by (cases P) (auto simp add: Let_def split: jsval.splits if_splits)

lemma run_execCatch_throws:
  "\<exists>e' s'. run d (execCatch sql P e) s l = (Thrown e', s', l)"
  unfolding execCatch_def
  by (cases P) (auto simp add: Let_def split: jsval.splits)

lemma db_exec_enriched:
  assumes "run d (db_exec h ty sql params opts) s l =
             (Thrown (Enriched e q (ArraySummary sm)), s', l')"
  shows "arrays s' =
           capNested (arrays s) (summaryOf (elems (arrays s) (normalize (ofArg params))))"
proof -
  let ?P = "ofArg params"
  let ?A = "ensureInit h"
  let ?B = "execMain h ty sql (normalize ?P) opts"
  obtain r1 s1 l1 where A: "run d ?A s l = (r1, s1, l1)" by (cases "run d ?A s l")
  have a1: "arrays s1 = arrays s"
    using A arrays_db_init [of d h s l r1 s1 l1] by (simp add: ensureInit_def split: if_splits)
  obtain r2 s2 l2 where B: "run d ?B s1 l1 = (r2, s2, l2)" by (cases "run d ?B s1 l1")
  have a2: "arrays s2 = arrays s" using arrays_execMain [OF B] a1 by simp
  show ?thesis
  proof (cases r1)
    case (Thrown e1)
    obtain e3 s3 where C: "run d (execCatch sql ?P e1 :: unit task) s1 l1 = (Thrown e3, s3, l1)"
      using run_execCatch_throws [of d sql ?P e1 s1 l1] by blast
    from assms A Thrown C have "e3 = Enriched e q (ArraySummary sm) \<and> arrays s' = arrays s3"
      unfolding db_exec_def
      by (auto simp add: run_simps split: if_splits)
    with run_execCatch_array [of d sql ?P e1 s1 l1 e q sm s3 l1] C a1 show ?thesis by simp
  next
    case (Returned u)
    show ?thesis
    proof (cases r2)
      case (Thrown e2)
      obtain e3 s3 where C: "run d (execCatch sql (normalize ?P) e2 :: result task) s2 l2 = (Thrown e3, s3, l2)"
        using run_execCatch_throws [of d sql "normalize ?P" e2 s2 l2] by blast
      from assms A B Returned Thrown C
      have "e3 = Enriched e q (ArraySummary sm) \<and> arrays s' = arrays s3"
        unfolding db_exec_def
        by (auto simp add: run_simps split: if_splits)
      with run_execCatch_array [of d sql "normalize ?P" e2 s2 l2 e q sm s3 l2] C a2
      show ?thesis by (cases ?P) simp_all
    next
      case (Returned v)
      with assms A B \<open>r1 = Returned u\<close> show ?thesis
        unfolding db_exec_def by (auto simp add: run_simps split: if_splits)
    next
      case NoResult
      with assms A B \<open>r1 = Returned u\<close> show ?thesis
        unfolding db_exec_def by (auto simp add: run_simps split: if_splits)
    qed
  next
    case NoResult
    with assms A show ?thesis
      unfolding db_exec_def by (auto simp add: run_simps split: if_splits)
  qed
qed

text \<open>
  C8: when \<open>_exec\<close> fails with the enriched error for an array of parameters, every array
  that is one of the first 50 parameters and has more than 5 elements has been changed in
  place: it keeps its first 5 elements, followed by one note on the elements left out. So
  such an array of the caller is not what it was before the call (it has 6 elements now).
\<close>

theorem failing_exec_caps_nested_arrays:
  assumes "run d (db_exec h ty sql params opts) s l =
             (Thrown (Enriched e q (ArraySummary sm)), s', l')"
    and "i < 50"
    and "i < length (elems (arrays s) (normalize (ofArg params)))"
    and "elems (arrays s) (normalize (ofArg params)) ! i = JArr a"
    and "5 < length (arrays s a)"
  shows "(\<exists>k. arrays s' a = take 5 (arrays s a) @ [itemsNote k]) \<and>
         (6 < length (arrays s a) \<longrightarrow> arrays s' a \<noteq> arrays s a)"
proof -
  let ?ps = "elems (arrays s) (normalize (ofArg params))"
  from assms(2-4) summaryOf_member [of i ?ps] have "JArr a \<in> set (summaryOf ?ps)" by simp
  with capNested_caps [of a "summaryOf ?ps" "arrays s"] assms(5) db_exec_enriched [OF assms(1)]
  have c: "\<exists>k. arrays s' a = take 5 (arrays s a) @ [itemsNote k]" by simp
  then have "length (arrays s' a) = 6" using assms(5) by auto
  then have "6 < length (arrays s a) \<longrightarrow> arrays s' a \<noteq> arrays s a" by auto
  with c show ?thesis by blast
qed

text \<open>An \<open>UPDATE\<close> with a batch of 8 values that the driver rejects.\<close>

theorem failing_exec_caps_nested_arrays_witness:
  "fst (run (failing (DriverError ''ER_LOCK_DEADLOCK''))
       (execute 0 ''UPDATE t SET a = 0 WHERE id = ? OR {(id > ? AND a < ?)} OR ...'' (JArr 1) noOptions)
       (connectedState (heapOf [(1, [JNum 0, JArr 2]),
          (2, [JNum 1, JNum 2, JNum 3, JNum 4, JNum 5, JNum 6, JNum 7, JNum 8])])) []) =
     Thrown (Enriched (DriverError ''ER_LOCK_DEADLOCK'')
       ''UPDATE t SET a = 0 WHERE id = ? OR {(id > ? AND a < ?)} OR ...''
       (ArraySummary [JNum 0, JArr 2])) \<and>
   arrays (fst (snd (run (failing (DriverError ''ER_LOCK_DEADLOCK''))
       (execute 0 ''UPDATE t SET a = 0 WHERE id = ? OR {(id > ? AND a < ?)} OR ...'' (JArr 1) noOptions)
       (connectedState (heapOf [(1, [JNum 0, JArr 2]),
          (2, [JNum 1, JNum 2, JNum 3, JNum 4, JNum 5, JNum 6, JNum 7, JNum 8])])) []))) 2 =
     [JNum 1, JNum 2, JNum 3, JNum 4, JNum 5, JStr ''... 3 items ...'']"
proof -
  let ?s = "connectedState (heapOf [(1, [JNum 0, JArr 2]),
          (2, [JNum 1, JNum 2, JNum 3, JNum 4, JNum 5, JNum 6, JNum 7, JNum 8])])"
  have r: "run (failing (DriverError ''ER_LOCK_DEADLOCK''))
       (db_exec 0 Execute ''UPDATE t SET a = 0 WHERE id = ? OR {(id > ? AND a < ?)} OR ...'' (JArr 1) noOptions)
       ?s [] =
     (Thrown (Enriched (DriverError ''ER_LOCK_DEADLOCK'')
        ''UPDATE t SET a = 0 WHERE id = ? OR {(id > ? AND a < ?)} OR ...''
        (ArraySummary [JNum 0, JArr 2])),
      ?s\<lparr>arrays := (arrays ?s)(2 := [JNum 1, JNum 2, JNum 3, JNum 4, JNum 5, JStr ''... 3 items ...''])\<rparr>,
      [ReqExec 7 Execute
         ''UPDATE t SET a = 0 WHERE id = ? OR (id > ? AND a < ?) OR (id > ? AND a < ?) OR (id > ? AND a < ?) OR (id > ? AND a < ?)''
         [JNum 0, JNum 1, JNum 2, JNum 3, JNum 4, JNum 5, JNum 6, JNum 7, JNum 8]])"
    by (simp add: exec_defs run_simps example_defs string_defs fun_upd_idem_iff summaryOf_def
          itemsNote_def showNat.simps replicate_numeral)
  from failing_exec_caps_nested_arrays [OF r, of 1 2] r show ?thesis
    by (simp add: execute_def)
qed

section \<open>Chunked execution\<close>
















section \<open>Calls at overlapping times\<close>

text \<open>
  A function that is started and then resumed, alone, until it ends gives the result of
  \<open>run\<close>: starting and resuming do not change what is left to run.
\<close>

lemma run_start:
  "run d (fst (start t s)) (snd (start t s)) l = run d t s l"
  by (induction t arbitrary: s) simp_all

lemma run_startD:
  "start t s = (t', s') \<Longrightarrow> run d t' s' l = run d t s l"
  using run_start [of d t s l] by simp

lemma run_resume:
  "resume d t s l = (t', s', l') \<Longrightarrow> run d t' s' l' = run d t s l"
  by (cases t) (auto split: prod.splits intro: run_startD)

text \<open>
  The guard of \<open>_exec\<close>: a call on a handle whose marker is set is rejected at once, and a
  call that passed the guard leaves the marker unset when it ends.
\<close>

lemma second_call_rejected:
  assumes "currentSql (dbs s h) = Some q" and "q \<noteq> []"
  shows "start (db_exec h ty sql params opts) s = (Throw (ConcurrencyError q), s)"
  using assms by (simp add: db_exec_def)

lemma db_exec_clears_marker:
  assumes "run d (db_exec h ty sql params opts) s l = (r, s', l')"
    and "\<not> markerSet (currentSql (dbs s h))"
    and "beginT (dbs s h) \<or> \<not> truthy (mustInTrans (options (dbs s h)))"
    and "r \<noteq> NoResult"
  shows "currentSql (dbs s' h) = None"
  using assms unfolding db_exec_def
  by (auto simp add: run_finallyT run_modifyDb split: prod.splits outcome.splits)

text \<open>
  On a handle that holds its connection the guard works: of two calls made one right
  after the other, the first has set the marker when it awaits the driver, and the second
  is rejected.
\<close>

lemma connected_second_call_rejected:
  "fst (concurrently (answering (Rows [])) [0]
          [query 0 ''SELECT 1'' JUndefined noOptions, query 0 ''SELECT 2'' JUndefined noOptions]
          (connectedState (\<lambda>a. []))) =
     [Return (Single (Rows [])), Throw (ConcurrencyError ''SELECT 1'')]"
  by (simp add: concurrently_def exec_defs example_defs Let_def finallyT_def modifyDb_def)

text \<open>
  C3, on the code: a second call made while the first one has not resolved is to fail
  with \<open>ConcurrencyError\<close>. The marker is set only after \<open>_init\<close> has been awaited. So on
  a handle that has no connection yet, two calls made one right after the other both
  pass the guard: both run \<open>_init\<close>, two pools are created and two connections are
  leased (the handle keeps the second one), both statements are sent and both calls
  return; none fails with \<open>ConcurrencyError\<close>.
\<close>

theorem concurrent_calls_during_init_not_rejected:
  "(case concurrently (answering (Rows [])) [0, 1, 0, 1, 0, 1]
           [query 0 ''SELECT 1'' JUndefined noOptions, query 0 ''SELECT 2'' JUndefined noOptions]
           (initialState (\<lambda>a. [])) of
      (ts, s, l) \<Rightarrow>
        ts = [Return (Single (Rows [])), Return (Single (Rows []))] \<and>
        l = [ReqCreatePool [(''host'', JStr ''localhost'')],
             ReqCreatePool [(''host'', JStr ''localhost'')],
             ReqGetConnection 0, ReqGetConnection 1,
             ReqExec 2 Query ''SELECT 1'' [], ReqExec 3 Query ''SELECT 2'' []] \<and>
        conn (dbs s 0) = Some 3)"
  by (simp add: concurrently_def exec_defs example_defs Let_def finallyT_def modifyDb_def)

text \<open>
  C4, on the code: two first uses of one pool name at overlapping times are to create
  one pool. The registry is tested before \<open>createPool\<close> is awaited and written after:
  two handles with the name \<open>main\<close> that are used for the first time, one right after the
  other, both find the registry empty; two pools are created, the second replaces the
  first in the registry, and the two handles hold connections of different pools.
\<close>

theorem concurrent_first_use_creates_two_pools:
  "(case concurrently (answering (Rows [])) [0, 1, 0, 1, 0, 1]
           [query 0 ''SELECT 1'' JUndefined noOptions, query 1 ''SELECT 2'' JUndefined noOptions]
           (initialState (\<lambda>a. [])) of
      (ts, s, l) \<Rightarrow>
        ts = [Return (Single (Rows [])), Return (Single (Rows []))] \<and>
        l = [ReqCreatePool [(''host'', JStr ''localhost'')],
             ReqCreatePool [(''host'', JStr ''localhost'')],
             ReqGetConnection 0, ReqGetConnection 1,
             ReqExec 2 Query ''SELECT 1'' [], ReqExec 3 Query ''SELECT 2'' []] \<and>
        poolsCreated l = 2 \<and>
        dbPools s (JStr ''main'') = Some 1 \<and>
        conn (dbs s 0) = Some 2 \<and> conn (dbs s 1) = Some 3)"
  by (simp add: concurrently_def exec_defs example_defs Let_def finallyT_def modifyDb_def)

end
